theory Spec2Isabelle
  imports Complex_Main "HOL-Library.Word" "HOL-Library.Multiset"
begin

section \<open>Numbers\<close>

text \<open>
  The source computes on C++ \<^verbatim>\<open>float\<close>, \<^verbatim>\<open>int\<close> (32 bit), \<^verbatim>\<open>unsigned int\<close>
  (32 bit) and \<^verbatim>\<open>int64_t\<close>.

  A \<^verbatim>\<open>float\<close> is modelled as a rational number or one of the three non-finite values.
  Arithmetic on finite values is exact: rounding, and overflow to an infinity, are not
  modelled. The universally quantified theorems below treat the cell index of a point as a
  function of the point and of the grid and use no property of the arithmetic; the
  evaluations at concrete inputs use values on which binary floating point is exact.

  Integers are machine words: \<open>+\<close>, \<open>-\<close> and \<open>*\<close> wrap around, \<open>sint\<close> reads a word
  as a signed value, \<open>unat\<close> as an unsigned one. A conversion from \<^verbatim>\<open>float\<close> to an
  integer type truncates towards zero; for a value the integer type cannot hold (also NaN
  and the infinities) C++ leaves the result open, and the model returns the smallest value
  of the type, which is what the conversion instructions of x86-64 produce.
\<close>

datatype float = Num rat | PInf | NInf | NaN

type_synonym int32 = "32 word"
type_synonym uint32 = "32 word"
type_synonym int64 = "64 word"

fun pcl_isfinite :: "float \<Rightarrow> bool" where
  "pcl_isfinite (Num r) = True"
| "pcl_isfinite u = False"

fun fsign :: "float \<Rightarrow> int" where
  "fsign (Num r) = (if r < 0 then - 1 else if r = 0 then 0 else 1)"
| "fsign PInf = 1"
| "fsign NInf = - 1"
| "fsign NaN = 0"

fun fmul :: "float \<Rightarrow> float \<Rightarrow> float" where
  "fmul NaN v = NaN"
| "fmul u NaN = NaN"
| "fmul (Num a) (Num b) = Num (a * b)"
| "fmul u v =
     (if fsign u * fsign v = 0 then NaN else if 0 < fsign u * fsign v then PInf else NInf)"

fun fsub :: "float \<Rightarrow> float \<Rightarrow> float" where
  "fsub NaN v = NaN"
| "fsub u NaN = NaN"
| "fsub (Num a) (Num b) = Num (a - b)"
| "fsub (Num a) PInf = NInf"
| "fsub (Num a) NInf = PInf"
| "fsub PInf PInf = NaN"
| "fsub PInf v = PInf"
| "fsub NInf NInf = NaN"
| "fsub NInf v = NInf"

fun ffloor :: "float \<Rightarrow> float" where
  "ffloor (Num a) = Num (of_int \<lfloor>a\<rfloor>)"
| "ffloor u = u"

text \<open>\<open>fless u v\<close> is the comparison \<^verbatim>\<open>u < v\<close>: false as soon as one side is NaN.\<close>

fun fless :: "float \<Rightarrow> float \<Rightarrow> bool" where
  "fless NaN v = False"
| "fless u NaN = False"
| "fless (Num a) (Num b) = (a < b)"
| "fless NInf NInf = False"
| "fless NInf v = True"
| "fless u NInf = False"
| "fless PInf v = False"
| "fless u PInf = True"

definition trunc_rat :: "rat \<Rightarrow> int" where
  "trunc_rat r = (if 0 \<le> r then \<lfloor>r\<rfloor> else \<lceil>r\<rceil>)"

definition float_to_int64 :: "float \<Rightarrow> int64" where
  "float_to_int64 u =
     (case u of
        Num r \<Rightarrow>
          (if - (2 ^ 63) \<le> trunc_rat r \<and> trunc_rat r < 2 ^ 63
           then word_of_int (trunc_rat r) else word_of_int (- (2 ^ 63)))
      | _ \<Rightarrow> word_of_int (- (2 ^ 63)))"

definition float_to_int :: "float \<Rightarrow> int32" where
  "float_to_int u =
     (case u of
        Num r \<Rightarrow>
          (if - (2 ^ 31) \<le> trunc_rat r \<and> trunc_rat r < 2 ^ 31
           then word_of_int (trunc_rat r) else word_of_int (- (2 ^ 31)))
      | _ \<Rightarrow> word_of_int (- (2 ^ 31)))"

definition int_to_float :: "int32 \<Rightarrow> float" where
  "int_to_float w = Num (of_int (sint w))"

text \<open>Three-component vectors (the fourth component of the Eigen vectors is 0 or unused).\<close>

type_synonym Vector3f = "float \<times> float \<times> float"
type_synonym Vector3i = "int32 \<times> int32 \<times> int32"

fun v0 :: "'a \<times> 'a \<times> 'a \<Rightarrow> 'a" where "v0 (a, b, c) = a"
fun v1 :: "'a \<times> 'a \<times> 'a \<Rightarrow> 'a" where "v1 (a, b, c) = b"
fun v2 :: "'a \<times> 'a \<times> 'a \<Rightarrow> 'a" where "v2 (a, b, c) = c"

section \<open>Data model\<close>

text \<open>
  A point has its three coordinates and the scalar values of the fields of its type, in the
  order of the field list of the cloud: position \<open>i\<close> of \<open>pt_data\<close> is the value that
  \<^verbatim>\<open>memcpy\<close> reads at \<^verbatim>\<open>fields[i].offset\<close>.
\<close>

record PointT =
  pt_x :: float
  pt_y :: float
  pt_z :: float
  pt_data :: "float list"

record PointCloud =
  points :: "PointT list"
  is_dense :: bool
  point_fields :: "string list"

text \<open>
  Modelled from the spec: the pair type \<^verbatim>\<open>cloud_point_index_idx\<close> is declared in the
  voxel-grid header of the point cloud library, which is not among the sources. The spec
  (CellAssignment) gives it a linear cell index (unsigned 32 bit) and a source point index,
  compared by the cell index alone.
\<close>

record cloud_point_index_idx =
  idx :: uint32
  cloud_point_index :: int

record VoxelGridPartition =
  input :: "PointCloud option"
  indices :: "int list"
  inverse_leaf_size :: Vector3f
  save_leaf_layout :: bool
  leaf_layout :: "int32 list"
  min_b :: Vector3i
  max_b :: Vector3i
  div_b :: Vector3i
  divb_mul :: Vector3i
  filter_field_name :: string
  filter_limit_min :: float
  filter_limit_max :: float
  filter_limit_negative :: bool
  min_points_per_voxel :: uint32

text \<open>
  What the function takes from outside the repository: the two corners that
  \<^verbatim>\<open>getMinMax3D\<close> returns for this call, the permutation that \<^verbatim>\<open>std::sort\<close> performs,
  and the largest size to which the leaf layout can be resized (beyond it
  \<^verbatim>\<open>resize\<close> throws \<^verbatim>\<open>bad_alloc\<close> or \<^verbatim>\<open>length_error\<close>).
\<close>

record environment =
  getMinMax3D :: "Vector3f \<times> Vector3f"
  std_sort :: "cloud_point_index_idx list \<Rightarrow> cloud_point_index_idx list"
  max_layout_size :: nat

text \<open>
  \<^verbatim>\<open>std::sort\<close> with \<^verbatim>\<open>std::less\<close> on the pairs: the result is ordered by cell index
  and is a permutation of the argument; the order of pairs of one cell is left open.
\<close>

definition is_std_sort ::
  "(cloud_point_index_idx list \<Rightarrow> cloud_point_index_idx list) \<Rightarrow> bool" where
  "is_std_sort srt = (\<forall>xs. sorted (map idx (srt xs)) \<and> mset (srt xs) = mset xs)"

datatype error =
    PointIndexOutOfRange
  | FieldIndexOutOfRange
  | FieldOffsetOutOfRange
  | LeafLayoutOutOfRange
  | PCLException

datatype diagnostic = NoInputDataset | LeafSizeTooSmall | InvalidFilterFieldName

record outcome =
  self :: VoxelGridPartition
  pc_vector :: "PointT list list"
  diagnostics :: "diagnostic list"

definition bind_res :: "error + 'a \<Rightarrow> ('a \<Rightarrow> error + 'b) \<Rightarrow> error + 'b" where
  "bind_res m f = (case m of Inl e \<Rightarrow> Inl e | Inr a \<Rightarrow> f a)"

section \<open>The passes of applyPartition\<close>

subsection \<open>Vector reads\<close>

text \<open>
  \<^verbatim>\<open>operator[]\<close> of a vector does not check its argument. A read or write outside the
  vector is an error value of the model.
\<close>

definition point_at :: "PointCloud \<Rightarrow> int \<Rightarrow> error + PointT" where
  "point_at c i =
     (if 0 \<le> i \<and> i < int (length (points c)) then Inr (points c ! nat i)
      else Inl PointIndexOutOfRange)"

text \<open>\<^verbatim>\<open>pcl::getFieldIndex\<close>: the position of the field of that name, or -1.\<close>

fun getFieldIndex_from :: "string list \<Rightarrow> string \<Rightarrow> int \<Rightarrow> int" where
  "getFieldIndex_from [] name d = - 1"
| "getFieldIndex_from (f # fs) name d =
     (if f = name then d else getFieldIndex_from fs name (d + 1))"

definition getFieldIndex :: "PointCloud \<Rightarrow> string \<Rightarrow> int" where
  "getFieldIndex c name = getFieldIndex_from (point_fields c) name 0"

text \<open>\<^verbatim>\<open>fields[distance_idx].offset\<close>, the offset standing for the position of the field.\<close>

definition field_offset :: "PointCloud \<Rightarrow> int \<Rightarrow> error + nat" where
  "field_offset c distance_idx =
     (if 0 \<le> distance_idx \<and> distance_idx < int (length (point_fields c)) then Inr (nat distance_idx)
      else Inl FieldIndexOutOfRange)"

definition read_field :: "PointT \<Rightarrow> nat \<Rightarrow> error + float" where
  "read_field p off =
     (if off < length (pt_data p) then Inr (pt_data p ! off) else Inl FieldOffsetOutOfRange)"

subsection \<open>Grid shape\<close>

definition division_count :: "float \<Rightarrow> float \<Rightarrow> float \<Rightarrow> int64" where
  "division_count lo hi ils = float_to_int64 (fmul (fsub hi lo) ils) + 1"

definition leaf_size_too_small :: "VoxelGridPartition \<Rightarrow> Vector3f \<Rightarrow> Vector3f \<Rightarrow> bool" where
  "leaf_size_too_small s min_p max_p =
     (let dx = division_count (v0 min_p) (v0 max_p) (v0 (inverse_leaf_size s));
          dy = division_count (v1 min_p) (v1 max_p) (v1 (inverse_leaf_size s));
          dz = division_count (v2 min_p) (v2 max_p) (v2 (inverse_leaf_size s))
      in sint (dx * dy * dz) > 2147483647)"

definition bound :: "float \<Rightarrow> float \<Rightarrow> int32" where
  "bound p ils = float_to_int (ffloor (fmul p ils))"

definition set_grid :: "VoxelGridPartition \<Rightarrow> Vector3f \<Rightarrow> Vector3f \<Rightarrow> VoxelGridPartition" where
  "set_grid s min_p max_p =
     (let ils = inverse_leaf_size s;
          mn = (bound (v0 min_p) (v0 ils), bound (v1 min_p) (v1 ils), bound (v2 min_p) (v2 ils));
          mx = (bound (v0 max_p) (v0 ils), bound (v1 max_p) (v1 ils), bound (v2 max_p) (v2 ils));
          dv = (v0 mx - v0 mn + 1, v1 mx - v1 mn + 1, v2 mx - v2 mn + 1)
      in s\<lparr>min_b := mn, max_b := mx, div_b := dv,
            divb_mul := (1, v0 dv, v0 dv * v1 dv)\<rparr>)"

subsection \<open>First pass: cell assignment\<close>

definition ijk :: "float \<Rightarrow> float \<Rightarrow> int32 \<Rightarrow> int32" where
  "ijk coord ils mn = float_to_int (fsub (ffloor (fmul coord ils)) (int_to_float mn))"

definition leaf_idx :: "VoxelGridPartition \<Rightarrow> PointT \<Rightarrow> uint32" where
  "leaf_idx s p =
     (let ijk0 = ijk (pt_x p) (v0 (inverse_leaf_size s)) (v0 (min_b s));
          ijk1 = ijk (pt_y p) (v1 (inverse_leaf_size s)) (v1 (min_b s));
          ijk2 = ijk (pt_z p) (v2 (inverse_leaf_size s)) (v2 (min_b s))
      in ijk0 * v0 (divb_mul s) + ijk1 * v1 (divb_mul s) + ijk2 * v2 (divb_mul s))"

definition invalid_point :: "PointT \<Rightarrow> bool" where
  "invalid_point p =
     (\<not> pcl_isfinite (pt_x p) \<or> \<not> pcl_isfinite (pt_y p) \<or> \<not> pcl_isfinite (pt_z p))"

text \<open>
  The test that opens the body of both loops; \<open>Inr True\<close> is \<^verbatim>\<open>continue\<close>. The point
  is read only when the cloud is not dense.
\<close>

definition skip_invalid :: "PointCloud \<Rightarrow> int \<Rightarrow> error + bool" where
  "skip_invalid c it =
     (if \<not> is_dense c then bind_res (point_at c it) (\<lambda>p. Inr (invalid_point p))
      else Inr False)"

text \<open>\<open>Inr True\<close> is \<^verbatim>\<open>continue\<close>: the field value is outside what the limits keep.\<close>

definition cut_out :: "VoxelGridPartition \<Rightarrow> float \<Rightarrow> bool" where
  "cut_out s distance_value =
     (if filter_limit_negative s
      then fless distance_value (filter_limit_max s) \<and> fless (filter_limit_min s) distance_value
      else fless (filter_limit_max s) distance_value \<or> fless distance_value (filter_limit_min s))"

text \<open>The body of the loop with a filter field: \<open>Inr None\<close> when the point is passed over.\<close>

definition filtered_body ::
  "VoxelGridPartition \<Rightarrow> PointCloud \<Rightarrow> int \<Rightarrow> int \<Rightarrow> error + cloud_point_index_idx option" where
  "filtered_body s c distance_idx it =
     bind_res (skip_invalid c it) (\<lambda>skip.
       if skip then Inr None
       else bind_res (point_at c it) (\<lambda>p.
         bind_res (field_offset c distance_idx) (\<lambda>off.
           bind_res (read_field p off) (\<lambda>distance_value.
             if cut_out s distance_value then Inr None
             else Inr (Some \<lparr>idx = leaf_idx s p, cloud_point_index = it\<rparr>)))))"

text \<open>The body of the loop without a filter field.\<close>

definition plain_body ::
  "VoxelGridPartition \<Rightarrow> PointCloud \<Rightarrow> int \<Rightarrow> error + cloud_point_index_idx option" where
  "plain_body s c it =
     bind_res (skip_invalid c it) (\<lambda>skip.
       if skip then Inr None
       else bind_res (point_at c it) (\<lambda>p.
         Inr (Some \<lparr>idx = leaf_idx s p, cloud_point_index = it\<rparr>)))"

fun for_indices ::
  "(int \<Rightarrow> error + cloud_point_index_idx option) \<Rightarrow> int list \<Rightarrow>
   cloud_point_index_idx list \<Rightarrow> error + cloud_point_index_idx list" where
  "for_indices body [] index_vector = Inr index_vector"
| "for_indices body (it # its) index_vector =
     (case body it of
        Inl e \<Rightarrow> Inl e
      | Inr None \<Rightarrow> for_indices body its index_vector
      | Inr (Some e) \<Rightarrow> for_indices body its (index_vector @ [e]))"

definition first_pass ::
  "VoxelGridPartition \<Rightarrow> PointCloud \<Rightarrow>
   error + (cloud_point_index_idx list \<times> diagnostic list)" where
  "first_pass s c =
     (if filter_field_name s \<noteq> []
      then
        (let distance_idx = getFieldIndex c (filter_field_name s);
             diag = (if distance_idx = - 1 then [InvalidFilterFieldName] else [])
         in bind_res (for_indices (filtered_body s c distance_idx) (indices s) [])
              (\<lambda>index_vector. Inr (index_vector, diag)))
      else
        bind_res (for_indices (plain_body s c) (indices s) [])
          (\<lambda>index_vector. Inr (index_vector, [])))"

subsection \<open>Third pass: runs of one cell\<close>

text \<open>
  The counters \<^verbatim>\<open>index\<close> and \<^verbatim>\<open>i\<close> are positions in \<^verbatim>\<open>index_vector\<close>; they are
  natural numbers here, which is what the unsigned counters of the source hold as long as
  the vector has fewer than \<open>2 ^ 32\<close> entries.
\<close>

function scan_same :: "cloud_point_index_idx list \<Rightarrow> nat \<Rightarrow> nat \<Rightarrow> nat" where
  "scan_same index_vector index i =
     (if i < length index_vector \<and> idx (index_vector ! i) = idx (index_vector ! index)
      then scan_same index_vector index (Suc i) else i)"
  by pat_completeness auto
termination
  by (relation "measure (\<lambda>(index_vector, index, i). length index_vector - i)") auto

declare scan_same.simps [simp del]

lemma scan_same_ge: "i \<le> scan_same index_vector index i"
proof (induction index_vector index i rule: scan_same.induct)
  case (1 index_vector index i)
  show ?case
  proof (cases "i < length index_vector \<and> idx (index_vector ! i) = idx (index_vector ! index)")
    case True
    with "1" have "Suc i \<le> scan_same index_vector index (Suc i)" by blast
    moreover from True
    have "scan_same index_vector index i = scan_same index_vector index (Suc i)"
      by (subst scan_same.simps) simp
    ultimately show ?thesis by simp
  next
    case False
    then have "scan_same index_vector index i = i"
      by (subst scan_same.simps) auto
    then show ?thesis by simp
  qed
qed

function third_pass ::
  "cloud_point_index_idx list \<Rightarrow> uint32 \<Rightarrow> nat \<Rightarrow> nat \<Rightarrow> (nat \<times> nat) list \<Rightarrow>
   nat \<times> (nat \<times> nat) list" where
  "third_pass index_vector min_points index total_cells first_and_last =
     (if index < length index_vector
      then
        (if unat min_points \<le> scan_same index_vector index (index + 1) - index
         then third_pass index_vector min_points (scan_same index_vector index (index + 1))
                (total_cells + 1)
                (first_and_last @ [(index, scan_same index_vector index (index + 1))])
         else third_pass index_vector min_points (scan_same index_vector index (index + 1))
                total_cells first_and_last)
      else (total_cells, first_and_last))"
  by pat_completeness auto
termination
proof (relation "measure (\<lambda>(index_vector, min_points, index, total_cells, fl). length index_vector - index)")
  show "wf (measure (\<lambda>(index_vector, min_points, index, total_cells, fl). length index_vector - index))"
    by simp
next
  fix index_vector :: "cloud_point_index_idx list" and min_points :: uint32
    and index total_cells :: nat and first_and_last :: "(nat \<times> nat) list"
  assume "index < length index_vector"
  moreover have "index + 1 \<le> scan_same index_vector index (index + 1)"
    by (rule scan_same_ge)
  ultimately show "((index_vector, min_points, scan_same index_vector index (index + 1),
      total_cells + 1, first_and_last @ [(index, scan_same index_vector index (index + 1))]),
      (index_vector, min_points, index, total_cells, first_and_last))
    \<in> measure (\<lambda>(index_vector, min_points, index, total_cells, fl). length index_vector - index)"
    by simp
next
  fix index_vector :: "cloud_point_index_idx list" and min_points :: uint32
    and index total_cells :: nat and first_and_last :: "(nat \<times> nat) list"
  assume "index < length index_vector"
  moreover have "index + 1 \<le> scan_same index_vector index (index + 1)"
    by (rule scan_same_ge)
  ultimately show "((index_vector, min_points, scan_same index_vector index (index + 1),
      total_cells, first_and_last),
      (index_vector, min_points, index, total_cells, first_and_last))
    \<in> measure (\<lambda>(index_vector, min_points, index, total_cells, fl). length index_vector - index)"
    by simp
qed

declare third_pass.simps [simp del]

subsection \<open>Fourth pass: clusters and leaf layout\<close>

text \<open>
  The layout is re-initialised over its first \<^verbatim>\<open>reinit_size\<close> entries and then resized
  with -1 as the fill value. \<^verbatim>\<open>resize\<close> throws when the size cannot be allocated, and
  the source turns that into a \<^verbatim>\<open>PCLException\<close>.
\<close>

definition resize :: "'a list \<Rightarrow> nat \<Rightarrow> 'a \<Rightarrow> 'a list" where
  "resize xs n v = (if n \<le> length xs then take n xs else xs @ replicate (n - length xs) v)"

definition reinit_layout :: "environment \<Rightarrow> VoxelGridPartition \<Rightarrow> error + int32 list" where
  "reinit_layout env s =
     (let new_layout_size = unat (v0 (div_b s) * v1 (div_b s) * v2 (div_b s));
          reinit_size = min new_layout_size (length (leaf_layout s) mod 2 ^ 32);
          cleared = map (\<lambda>i. if i < reinit_size then - 1 else leaf_layout s ! i)
                      [0..<length (leaf_layout s)]
      in if new_layout_size \<le> max_layout_size env then Inr (resize cleared new_layout_size (- 1))
         else Inl PCLException)"

fun copy_points :: "PointCloud \<Rightarrow> cloud_point_index_idx list \<Rightarrow> error + PointT list" where
  "copy_points c [] = Inr []"
| "copy_points c (e # es) =
     bind_res (point_at c (cloud_point_index e)) (\<lambda>p.
       bind_res (copy_points c es) (\<lambda>ps. Inr (p # ps)))"

text \<open>The entries \<^verbatim>\<open>index_vector[first_index .. last_index - 1]\<close>.\<close>

definition run_entries ::
  "cloud_point_index_idx list \<Rightarrow> nat \<times> nat \<Rightarrow> cloud_point_index_idx list" where
  "run_entries index_vector fl = take (snd fl - fst fl) (drop (fst fl) index_vector)"

fun fourth_pass ::
  "PointCloud \<Rightarrow> bool \<Rightarrow> cloud_point_index_idx list \<Rightarrow> (nat \<times> nat) list \<Rightarrow> nat \<Rightarrow>
   PointT list list \<Rightarrow> int32 list \<Rightarrow> error + (PointT list list \<times> int32 list)" where
  "fourth_pass c save index_vector [] index pcv layout = Inr (pcv, layout)"
| "fourth_pass c save index_vector (fl # rest) index pcv layout =
     bind_res (copy_points c (run_entries index_vector fl)) (\<lambda>ps.
       (if save
        then
          (if unat (idx (index_vector ! fst fl)) < length layout
           then fourth_pass c save index_vector rest (index + 1)
                  (pcv[index := pcv ! index @ ps])
                  (layout[unat (idx (index_vector ! fst fl)) := word_of_nat index])
           else Inl LeafLayoutOutOfRange)
        else fourth_pass c save index_vector rest (index + 1)
               (pcv[index := pcv ! index @ ps]) layout))"

subsection \<open>applyPartition\<close>

text \<open>
  The public entry \<^verbatim>\<open>compute\<close> calls \<^verbatim>\<open>applyPartition\<close> between the
  \<^verbatim>\<open>initCompute\<close> and \<^verbatim>\<open>deinitCompute\<close> of the library, which are not among the
  sources; the model is of \<^verbatim>\<open>applyPartition\<close>.

  Every path assigns \<^verbatim>\<open>pc_vector\<close> as a whole (\<^verbatim>\<open>clear\<close>, or \<^verbatim>\<open>resize\<close> followed by
  a fresh cloud in every position), so what the caller passed in plays no part. The
  computations of \<^verbatim>\<open>centroid_size\<close> and \<^verbatim>\<open>rgba_index\<close> have no effect on the result
  and are left out.
\<close>

definition partition_cells ::
  "environment \<Rightarrow> VoxelGridPartition \<Rightarrow> PointCloud \<Rightarrow> error + outcome" where
  "partition_cells env s c =
     bind_res (first_pass s c) (\<lambda>(unsorted, diag).
       (let index_vector = std_sort env unsorted;
            (total_cells, first_and_last) = third_pass index_vector (min_points_per_voxel s) 0 0 []
        in bind_res (if save_leaf_layout s then reinit_layout env s else Inr (leaf_layout s))
             (\<lambda>layout.
               bind_res (fourth_pass c (save_leaf_layout s) index_vector first_and_last 0
                           (replicate total_cells []) layout)
                 (\<lambda>(pcv, layout').
                   Inr \<lparr>self = s\<lparr>leaf_layout := layout'\<rparr>, pc_vector = pcv,
                        diagnostics = diag\<rparr>))))"

definition applyPartition :: "environment \<Rightarrow> VoxelGridPartition \<Rightarrow> error + outcome" where
  "applyPartition env s =
     (case input s of
        None \<Rightarrow> Inr \<lparr>self = s, pc_vector = [], diagnostics = [NoInputDataset]\<rparr>
      | Some c \<Rightarrow>
          (let min_p = fst (getMinMax3D env); max_p = snd (getMinMax3D env)
           in if leaf_size_too_small s min_p max_p
              then Inr \<lparr>self = s, pc_vector = [], diagnostics = [LeafSizeTooSmall]\<rparr>
              else partition_cells env (set_grid s min_p max_p) c))"

section \<open>Notions for stating the properties\<close>

text \<open>
  The maximal blocks of neighbours with one key, in order: what the third pass delimits by
  positions. On a list ordered by the key these are the classes of elements of one key.
\<close>

function groups :: "('a \<Rightarrow> 'k) \<Rightarrow> 'a list \<Rightarrow> 'a list list" where
  "groups key [] = []"
| "groups key (x # xs) =
     (x # takeWhile (\<lambda>y. key y = key x) xs) # groups key (dropWhile (\<lambda>y. key y = key x) xs)"
  by pat_completeness auto
termination
  by (relation "measure (\<lambda>(key, xs). length xs)") (auto simp: length_dropWhile_le less_Suc_eq_le)

text \<open>The runs that the third pass keeps: those with at least \<^verbatim>\<open>min_points_per_voxel_\<close> entries.\<close>

definition surviving_runs ::
  "uint32 \<Rightarrow> cloud_point_index_idx list \<Rightarrow> cloud_point_index_idx list list" where
  "surviving_runs min_points index_vector =
     filter (\<lambda>run. unat min_points \<le> length run) (groups idx index_vector)"

text \<open>The body of the loop that the first pass runs, whichever of the two it is.\<close>

definition assign ::
  "VoxelGridPartition \<Rightarrow> PointCloud \<Rightarrow> int \<Rightarrow> error + cloud_point_index_idx option" where
  "assign s c it =
     (if filter_field_name s \<noteq> [] then filtered_body s c (getFieldIndex c (filter_field_name s)) it
      else plain_body s c it)"

text \<open>The entries that a loop body pushes for a list of candidates, when it fails on none.\<close>

definition admitted_entries ::
  "(int \<Rightarrow> error + cloud_point_index_idx option) \<Rightarrow> int list \<Rightarrow> cloud_point_index_idx list" where
  "admitted_entries body its =
     List.map_filter (\<lambda>it. case body it of Inl e \<Rightarrow> None | Inr oe \<Rightarrow> oe) its"

text \<open>
  The linear cell index of an admitted candidate: \<open>None\<close> for a candidate that the
  finiteness check or the admission filter passes over (or on which the body fails).
\<close>

definition cell_of :: "VoxelGridPartition \<Rightarrow> PointCloud \<Rightarrow> int \<Rightarrow> uint32 option" where
  "cell_of s c it =
     (case assign s c it of Inl e \<Rightarrow> None | Inr None \<Rightarrow> None | Inr (Some e) \<Rightarrow> Some (idx e))"

definition first_pass_diagnostics :: "VoxelGridPartition \<Rightarrow> PointCloud \<Rightarrow> diagnostic list" where
  "first_pass_diagnostics s c =
     (if filter_field_name s \<noteq> [] \<and> getFieldIndex c (filter_field_name s) = - 1
      then [InvalidFilterFieldName] else [])"

text \<open>The source point that an entry refers to.\<close>

definition point_of :: "PointCloud \<Rightarrow> cloud_point_index_idx \<Rightarrow> PointT" where
  "point_of c e = points c ! nat (cloud_point_index e)"

text \<open>The object once the grid of this call is set, and the test that the call gets that far.\<close>

definition grid :: "environment \<Rightarrow> VoxelGridPartition \<Rightarrow> VoxelGridPartition" where
  "grid env s = set_grid s (fst (getMinMax3D env)) (snd (getMinMax3D env))"

definition proceeds :: "environment \<Rightarrow> VoxelGridPartition \<Rightarrow> bool" where
  "proceeds env s =
     (input s \<noteq> None \<and> \<not> leaf_size_too_small s (fst (getMinMax3D env)) (snd (getMinMax3D env)))"

text \<open>The writes of the fourth pass into the leaf layout, for the cell indices of the runs.\<close>

fun record_cells :: "uint32 list \<Rightarrow> nat \<Rightarrow> int32 list \<Rightarrow> int32 list" where
  "record_cells [] index layout = layout"
| "record_cells (k # ks) index layout =
     record_cells ks (index + 1) (layout[unat k := word_of_nat index])"

text \<open>
  The cell index that the loop body gives a point, with the point: the body uses its
  candidate only to read the point, so it is run on a cloud that holds the point alone.
\<close>

definition point_entry ::
  "VoxelGridPartition \<Rightarrow> PointCloud \<Rightarrow> PointT \<Rightarrow> (uint32 \<times> PointT) option" where
  "point_entry g c p =
     (case assign g (c\<lparr>points := [p]\<rparr>) 0 of
        Inl e \<Rightarrow> None | Inr None \<Rightarrow> None | Inr (Some e) \<Rightarrow> Some (idx e, p))"

text \<open>
  A point is kept by the admission filter: there is no filter field, or its field is among
  the fields of the cloud and the value of the point is not cut out by the limits.
\<close>

definition passes_filter :: "VoxelGridPartition \<Rightarrow> PointCloud \<Rightarrow> PointT \<Rightarrow> bool" where
  "passes_filter s c p =
     (if filter_field_name s \<noteq> []
      then (case field_offset c (getFieldIndex c (filter_field_name s)) of
              Inl e \<Rightarrow> False
            | Inr off \<Rightarrow> (case read_field p off of Inl e \<Rightarrow> False
                         | Inr distance_value \<Rightarrow> \<not> cut_out s distance_value))
      else True)"

section \<open>Concrete inputs\<close>

text \<open>
  A point with three rational coordinates (its field values are the coordinates), a dense
  cloud with the fields x, y and z, a filter object with leaf size 1 on every axis and no
  filter field over a cloud and a list of candidates, and an environment in which
  \<^verbatim>\<open>getMinMax3D\<close> has returned the two given corners and the sort is a stable
  insertion sort.
\<close>

definition xyz :: "rat \<Rightarrow> rat \<Rightarrow> rat \<Rightarrow> PointT" where
  "xyz a b c = \<lparr>pt_x = Num a, pt_y = Num b, pt_z = Num c, pt_data = [Num a, Num b, Num c]\<rparr>"

definition cloud_of :: "PointT list \<Rightarrow> PointCloud" where
  "cloud_of ps = \<lparr>points = ps, is_dense = True, point_fields = [''x'', ''y'', ''z'']\<rparr>"

definition filter_for :: "PointCloud \<Rightarrow> int list \<Rightarrow> VoxelGridPartition" where
  "filter_for c its =
     \<lparr>input = Some c, indices = its,
      inverse_leaf_size = (Num 1, Num 1, Num 1), save_leaf_layout = False, leaf_layout = [],
      min_b = (0, 0, 0), max_b = (0, 0, 0), div_b = (0, 0, 0), divb_mul = (0, 0, 0),
      filter_field_name = [], filter_limit_min = Num 0, filter_limit_max = Num 0,
      filter_limit_negative = False, min_points_per_voxel = 0\<rparr>"

definition env_for :: "rat \<Rightarrow> rat \<Rightarrow> rat \<Rightarrow> rat \<Rightarrow> rat \<Rightarrow> rat \<Rightarrow> environment" where
  "env_for x0 y0 z0 x1 y1 z1 =
     \<lparr>getMinMax3D = ((Num x0, Num y0, Num z0), (Num x1, Num y1, Num z1)),
      std_sort = sort_key idx, max_layout_size = 2 ^ 20\<rparr>"

text \<open>
  Two points whose extent is 1289.75 on every axis: the check computes 1290 divisions per
  axis, the grid has 1291.
\<close>

definition near_limit_cloud :: PointCloud where
  "near_limit_cloud = cloud_of [xyz (1/2) (1/2) (1/2), xyz (5161/4) (5161/4) (5161/4)]"

definition near_limit_filter :: VoxelGridPartition where
  "near_limit_filter = filter_for near_limit_cloud [0, 1]"

definition near_limit_env :: environment where
  "near_limit_env = env_for (1/2) (1/2) (1/2) (5161/4) (5161/4) (5161/4)"

text \<open>Two points, one of them at \<open>2 ^ 62\<close> on the x axis.\<close>

definition far_point_cloud :: PointCloud where
  "far_point_cloud = cloud_of [xyz 0 0 0, xyz (2 ^ 62) 2 0]"

definition far_point_filter :: VoxelGridPartition where
  "far_point_filter = filter_for far_point_cloud [0, 1]"

definition far_point_env :: environment where
  "far_point_env = env_for 0 0 0 (2 ^ 62) 2 0"

text \<open>Two points and a filter field that the point type does not have.\<close>

definition unit_cloud :: PointCloud where
  "unit_cloud = cloud_of [xyz 0 0 0, xyz 1 1 1]"

definition intensity_filter :: VoxelGridPartition where
  "intensity_filter =
     (filter_for unit_cloud [0, 1])\<lparr>filter_field_name := ''intensity'', filter_limit_max := Num 10\<rparr>"

definition unit_env :: environment where
  "unit_env = env_for 0 0 0 1 1 1"

text \<open>
  The example of the spec with coordinates that are exact in binary: one point in the cell
  at the origin and two points in the cell at (5, 5, 5), with a minimum of two points per
  voxel.
\<close>

definition three_point_cloud :: PointCloud where
  "three_point_cloud =
     cloud_of [xyz (1/4) (1/4) (1/4), xyz (21/4) (21/4) (21/4), xyz (11/2) (11/2) (11/2)]"

definition pair_filter :: VoxelGridPartition where
  "pair_filter = (filter_for three_point_cloud [0, 1, 2])\<lparr>min_points_per_voxel := 2\<rparr>"

definition three_point_env :: environment where
  "three_point_env = env_for (1/4) (1/4) (1/4) (11/2) (11/2) (11/2)"

text \<open>The two points of the unit cube, the far corner first.\<close>

definition reversed_cloud :: PointCloud where
  "reversed_cloud = cloud_of [xyz 1 1 1, xyz 0 0 0]"

definition reversed_filter :: VoxelGridPartition where
  "reversed_filter = filter_for reversed_cloud [0, 1]"

text \<open>A dense cloud with a point whose x coordinate is NaN.\<close>

definition nan_point :: PointT where
  "nan_point = \<lparr>pt_x = NaN, pt_y = Num 0, pt_z = Num 0, pt_data = [NaN, Num 0, Num 0]\<rparr>"

definition nan_cloud :: PointCloud where
  "nan_cloud = cloud_of [xyz 0 0 0, nan_point]"

definition nan_filter :: VoxelGridPartition where
  "nan_filter = filter_for nan_cloud [0, 1]"

definition origin_env :: environment where
  "origin_env = env_for 0 0 0 0 0 0"

text \<open>No input cloud; and a cloud that is not dense and holds one point, which is not finite.\<close>

definition no_input_filter :: VoxelGridPartition where
  "no_input_filter = (filter_for unit_cloud [0, 1])\<lparr>input := None\<rparr>"

definition lone_nan_cloud :: PointCloud where
  "lone_nan_cloud = (cloud_of [nan_point])\<lparr>is_dense := False\<rparr>"

definition lone_nan_filter :: VoxelGridPartition where
  "lone_nan_filter = filter_for lone_nan_cloud [0]"

text \<open>The three points of the example, with the leaf layout recorded.\<close>

definition layout_filter :: VoxelGridPartition where
  "layout_filter = pair_filter\<lparr>save_leaf_layout := True\<rparr>"

text \<open>A cloud that is not dense: a finite point and a point whose x coordinate is NaN.\<close>

definition sparse_cloud :: PointCloud where
  "sparse_cloud = nan_cloud\<lparr>is_dense := False\<rparr>"

definition sparse_filter :: VoxelGridPartition where
  "sparse_filter = filter_for sparse_cloud [0, 1]"

text \<open>The three points of the example in the opposite order.\<close>

definition permuted_filter :: VoxelGridPartition where
  "permuted_filter =
     pair_filter\<lparr>input := Some (three_point_cloud\<lparr>points :=
       [xyz (11/2) (11/2) (11/2), xyz (21/4) (21/4) (21/4), xyz (1/4) (1/4) (1/4)]\<rparr>)\<rparr>"

text \<open>
  Two points whose grid has 2, 2 and \<open>2 ^ 30 + 1\<close> divisions, with the leaf layout
  recorded.
\<close>

definition wide_cloud :: PointCloud where
  "wide_cloud = cloud_of [xyz (1/2) (1/2) 0, xyz (5/4) (5/4) (2 ^ 30)]"

definition wide_filter :: VoxelGridPartition where
  "wide_filter = (filter_for wide_cloud [0, 1])\<lparr>save_leaf_layout := True\<rparr>"

definition wide_env :: environment where
  "wide_env = env_for (1/2) (1/2) 0 (5/4) (5/4) (2 ^ 30)"

section \<open>Properties of the passes\<close>


lemma bind_res_Inl [simp]: "bind_res (Inl e) f = Inl e"
  by (simp add: bind_res_def)

lemma bind_res_Inr [simp]: "bind_res (Inr a) f = f a"
  by (simp add: bind_res_def)

lemma bind_res_eq_Inr: "(bind_res m f = Inr b) = (\<exists>a. m = Inr a \<and> f a = Inr b)"
  by (cases m) simp_all

lemma scan_same_takeWhile:
  "i \<le> length iv \<Longrightarrow>
   scan_same iv index i = i + length (takeWhile (\<lambda>y. idx y = idx (iv ! index)) (drop i iv))"
proof (induction iv index i rule: scan_same.induct)
  case (1 iv index i)
  show ?case
  proof (cases "i < length iv \<and> idx (iv ! i) = idx (iv ! index)")
    case True
    then have d: "drop i iv = iv ! i # drop (Suc i) iv"
      by (simp add: Cons_nth_drop_Suc)
    from True have "scan_same iv index i = scan_same iv index (Suc i)"
      by (subst scan_same.simps) simp
    also from True "1.IH" have "\<dots> = Suc i + length (takeWhile (\<lambda>y. idx y = idx (iv ! index)) (drop (Suc i) iv))"
      by simp
    finally show ?thesis using True by (simp add: d)
  next
    case False
    then have s: "scan_same iv index i = i"
      by (subst scan_same.simps) auto
    show ?thesis
    proof (cases "i < length iv")
      case True
      then have d: "drop i iv = iv ! i # drop (Suc i) iv"
        by (simp add: Cons_nth_drop_Suc)
      from True False show ?thesis by (simp add: s d)
    next
      case False
      then show ?thesis unfolding s by simp
    qed
  qed
qed

lemma third_pass_runs:
  "index \<le> length iv \<Longrightarrow>
   fst (third_pass iv mp index tot acc) =
     tot + length (filter (\<lambda>g. unat mp \<le> length g) (groups idx (drop index iv))) \<and>
   map (run_entries iv) (snd (third_pass iv mp index tot acc)) =
     map (run_entries iv) acc @ filter (\<lambda>g. unat mp \<le> length g) (groups idx (drop index iv)) \<and>
   map (\<lambda>fl. iv ! fst fl) (snd (third_pass iv mp index tot acc)) =
     map (\<lambda>fl. iv ! fst fl) acc @ map hd (filter (\<lambda>g. unat mp \<le> length g) (groups idx (drop index iv)))"
proof (induction iv mp index tot acc rule: third_pass.induct)
  case (1 iv mp index tot acc)
  show ?case
  proof (cases "index < length iv")
    case False
    with "1.prems" have "drop index iv = []" by simp
    moreover from False have "third_pass iv mp index tot acc = (tot, acc)"
      by (subst third_pass.simps) simp
    ultimately show ?thesis by simp
  next
    case True
    define x where "x = iv ! index"
    define rest where "rest = drop (index + 1) iv"
    define tw where "tw = takeWhile (\<lambda>y. idx y = idx x) rest"
    define i' where "i' = scan_same iv index (index + 1)"
    from True have dr: "drop index iv = x # rest"
      by (simp add: x_def rest_def Cons_nth_drop_Suc)
    from True have i': "i' = index + 1 + length tw"
      unfolding i'_def tw_def rest_def x_def by (intro scan_same_takeWhile) simp
    have "length tw \<le> length rest"
      unfolding tw_def by (rule length_takeWhile_le)
    with True have le: "i' \<le> length iv"
      by (simp add: i' rest_def)
    have dw: "dropWhile (\<lambda>y. idx y = idx x) rest = drop i' iv"
    proof -
      have "dropWhile (\<lambda>y. idx y = idx x) rest = drop (length tw) rest"
        unfolding tw_def by (rule dropWhile_eq_drop)
      also have "\<dots> = drop i' iv"
        by (simp add: rest_def i' add.commute)
      finally show ?thesis .
    qed
    have run: "run_entries iv (index, i') = x # tw"
    proof -
      have "take (length tw) rest = tw"
        unfolding tw_def by (rule takeWhile_eq_take [symmetric])
      then show ?thesis
        by (simp add: run_entries_def i' dr)
    qed
    have gr: "groups idx (drop index iv) = (x # tw) # groups idx (drop i' iv)"
      by (simp add: dr tw_def dw)
    have len: "i' - index = length (x # tw)"
      by (simp add: i')
    show ?thesis
    proof (cases "unat mp \<le> i' - index")
      case yes: True
      with True have eq: "third_pass iv mp index tot acc = third_pass iv mp i' (tot + 1) (acc @ [(index, i')])"
        by (subst third_pass.simps) (simp add: i'_def)
      from "1.IH"(1) True yes le
      have ih: "fst (third_pass iv mp i' (tot + 1) (acc @ [(index, i')])) =
          tot + 1 + length (filter (\<lambda>g. unat mp \<le> length g) (groups idx (drop i' iv))) \<and>
        map (run_entries iv) (snd (third_pass iv mp i' (tot + 1) (acc @ [(index, i')]))) =
          map (run_entries iv) (acc @ [(index, i')]) @ filter (\<lambda>g. unat mp \<le> length g) (groups idx (drop i' iv)) \<and>
        map (\<lambda>fl. iv ! fst fl) (snd (third_pass iv mp i' (tot + 1) (acc @ [(index, i')]))) =
          map (\<lambda>fl. iv ! fst fl) (acc @ [(index, i')]) @ map hd (filter (\<lambda>g. unat mp \<le> length g) (groups idx (drop i' iv)))"
        by (simp add: i'_def)
      from yes len have ok: "unat mp \<le> length (x # tw)" by simp
      show ?thesis
        using ih ok by (simp add: eq gr run x_def del: groups.simps)
    next
      case no: False
      with True have eq: "third_pass iv mp index tot acc = third_pass iv mp i' tot acc"
        by (subst third_pass.simps) (simp add: i'_def)
      from "1.IH"(2) True no le
      have ih: "fst (third_pass iv mp i' tot acc) =
          tot + length (filter (\<lambda>g. unat mp \<le> length g) (groups idx (drop i' iv))) \<and>
        map (run_entries iv) (snd (third_pass iv mp i' tot acc)) =
          map (run_entries iv) acc @ filter (\<lambda>g. unat mp \<le> length g) (groups idx (drop i' iv)) \<and>
        map (\<lambda>fl. iv ! fst fl) (snd (third_pass iv mp i' tot acc)) =
          map (\<lambda>fl. iv ! fst fl) acc @ map hd (filter (\<lambda>g. unat mp \<le> length g) (groups idx (drop i' iv)))"
        by (simp add: i'_def)
      from no len have ok: "\<not> unat mp \<le> length (x # tw)" by simp
      show ?thesis
        using ih ok by (simp add: eq gr del: groups.simps)
    qed
  qed
qed

lemma concat_groups: "concat (groups key xs) = xs"
  by (induction key xs rule: groups.induct) simp_all

lemma groups_nonempty: "g \<in> set (groups key xs) \<Longrightarrow> g \<noteq> []"
  by (induction key xs rule: groups.induct) auto

lemma groups_subset: "g \<in> set (groups key xs) \<Longrightarrow> set g \<subseteq> set xs"
proof -
  assume "g \<in> set (groups key xs)"
  then have "set g \<subseteq> set (concat (groups key xs))" by auto
  then show ?thesis by (simp add: concat_groups)
qed

lemma sorted_dropWhile_gt:
  "sorted (map key (x # xs)) \<Longrightarrow> y \<in> set (dropWhile (\<lambda>y. key y = key x) xs) \<Longrightarrow> key x < key y"
proof (induction xs)
  case Nil
  then show ?case by simp
next
  case (Cons a as)
  show ?case
  proof (cases "key a = key x")
    case True
    with Cons show ?thesis by simp
  next
    case False
    with Cons.prems have "key x < key a" by auto
    moreover from Cons.prems have "\<forall>z\<in>set as. key a \<le> key z" by simp
    ultimately show ?thesis using Cons.prems(2) False by auto
  qed
qed

lemma sorted_map_dropWhile:
  "sorted (map key xs) \<Longrightarrow> sorted (map key (dropWhile P xs))"
  by (induction xs) auto

lemma sorted_head_run:
  assumes "sorted (map key (x # xs))"
  shows "x # takeWhile (\<lambda>y. key y = key x) xs = filter (\<lambda>y. key y = key x) (x # xs)"
    and "dropWhile (\<lambda>y. key y = key x) xs = filter (\<lambda>y. key y \<noteq> key x) (x # xs)"
proof -
  let ?P = "\<lambda>y. key y = key x"
  let ?N = "\<lambda>y. key y \<noteq> key x"
  have t: "\<forall>y\<in>set (takeWhile ?P xs). ?P y" by (blast dest: set_takeWhileD)
  have "?N y" if "y \<in> set (dropWhile ?P xs)" for y
  proof -
    from assms that have "key x < key y" by (rule sorted_dropWhile_gt)
    then show ?thesis by simp
  qed
  then have d: "\<forall>y\<in>set (dropWhile ?P xs). ?N y" by blast
  from t have t': "\<forall>y\<in>set (takeWhile ?P xs). \<not> ?N y" by blast
  from d have d': "\<forall>y\<in>set (dropWhile ?P xs). \<not> ?P y" by blast
  have "filter ?P xs = filter ?P (takeWhile ?P xs @ dropWhile ?P xs)"
    by (simp only: takeWhile_dropWhile_id)
  also have "\<dots> = filter ?P (takeWhile ?P xs) @ filter ?P (dropWhile ?P xs)"
    by (simp only: filter_append)
  also have "\<dots> = takeWhile ?P xs"
    by (simp only: filter_True [OF t] filter_False [OF d'] append_Nil2)
  finally have a: "filter ?P xs = takeWhile ?P xs" .
  have "filter ?P (x # xs) = x # filter ?P xs" by simp
  with a show "x # takeWhile ?P xs = filter ?P (x # xs)" by (simp only:)
  have "filter ?N xs = filter ?N (takeWhile ?P xs @ dropWhile ?P xs)"
    by (simp only: takeWhile_dropWhile_id)
  also have "\<dots> = filter ?N (takeWhile ?P xs) @ filter ?N (dropWhile ?P xs)"
    by (simp only: filter_append)
  also have "\<dots> = dropWhile ?P xs"
    by (simp only: filter_False [OF t'] filter_True [OF d] append_Nil)
  finally have b: "filter ?N xs = dropWhile ?P xs" .
  have "filter ?N (x # xs) = filter ?N xs" by simp
  with b show "dropWhile ?P xs = filter ?N (x # xs)" by (simp only:)
qed

lemma groups_are_filters:
  "sorted (map key xs) \<Longrightarrow> g \<in> set (groups key xs) \<Longrightarrow>
   g = filter (\<lambda>y. key y = key (hd g)) xs"
proof (induction key xs rule: groups.induct)
  case (1 key)
  then show ?case by simp
next
  case (2 key x xs)
  let ?P = "\<lambda>y. key y = key x"
  show ?case
  proof (cases "g = x # takeWhile ?P xs")
    case True
    then show ?thesis using sorted_head_run(1) [OF "2.prems"(1)] by simp
  next
    case False
    with "2.prems" have gin: "g \<in> set (groups key (dropWhile ?P xs))" by simp
    have srt: "sorted (map key (dropWhile ?P xs))"
      using "2.prems"(1) sorted_map_dropWhile [of key xs ?P] by simp
    from "2.IH" [OF srt gin] have g: "g = filter (\<lambda>y. key y = key (hd g)) (dropWhile ?P xs)" .
    have "hd g \<in> set g" using groups_nonempty [OF gin] by simp
    with groups_subset [OF gin] have "hd g \<in> set (dropWhile ?P xs)" by auto
    with "2.prems"(1) have "key x < key (hd g)" by (rule sorted_dropWhile_gt)
    then have ne: "key (hd g) \<noteq> key x" by simp
    have "filter (\<lambda>y. key y = key (hd g)) (x # xs) =
        filter (\<lambda>y. key y = key (hd g)) (filter (\<lambda>y. key y \<noteq> key x) (x # xs))"
      using ne by (auto simp: filter_filter intro!: filter_cong)
    also have "\<dots> = filter (\<lambda>y. key y = key (hd g)) (dropWhile ?P xs)"
      by (simp only: sorted_head_run(2) [OF "2.prems"(1)])
    finally show ?thesis using g by simp
  qed
qed

lemma groups_member:
  "sorted (map key xs) \<Longrightarrow> e \<in> set xs \<Longrightarrow>
   filter (\<lambda>y. key y = key e) xs \<in> set (groups key xs)"
proof -
  assume s: "sorted (map key xs)" and e: "e \<in> set xs"
  from e have "e \<in> set (concat (groups key xs))" by (simp add: concat_groups)
  then obtain g where g: "g \<in> set (groups key xs)" and eg: "e \<in> set g" by auto
  from groups_are_filters [OF s g] have gf: "g = filter (\<lambda>y. key y = key (hd g)) xs" .
  with eg have "e \<in> set (filter (\<lambda>y. key y = key (hd g)) xs)" by simp
  then have "key e = key (hd g)" by simp
  with gf g show ?thesis by simp
qed

lemma groups_keys_ascending:
  "sorted (map key xs) \<Longrightarrow> sorted_wrt (<) (map (\<lambda>g. key (hd g)) (groups key xs))"
proof (induction key xs rule: groups.induct)
  case (1 key)
  then show ?case by simp
next
  case (2 key x xs)
  let ?P = "\<lambda>y. key y = key x"
  have srt: "sorted (map key (dropWhile ?P xs))"
    using "2.prems"(1) sorted_map_dropWhile [of key xs ?P] by simp
  have "key x < key (hd g)" if "g \<in> set (groups key (dropWhile ?P xs))" for g
  proof -
    have "hd g \<in> set g" using groups_nonempty [OF that] by simp
    with groups_subset [OF that] have "hd g \<in> set (dropWhile ?P xs)" by auto
    with "2.prems"(1) show ?thesis by (rule sorted_dropWhile_gt)
  qed
  with "2.IH" [OF srt] show ?case by simp
qed

lemma groups_view_cong:
  "sorted (map key xs) \<Longrightarrow> sorted (map key ys) \<Longrightarrow> mset xs = mset ys \<Longrightarrow>
   map (\<lambda>g. (key (hd g), mset g)) (groups key xs) =
   map (\<lambda>g. (key (hd g), mset g)) (groups key ys)"
proof (induction key xs arbitrary: ys rule: groups.induct)
  case (1 key)
  then show ?case by simp
next
  case (2 key x xs)
  from "2.prems"(3) have "ys \<noteq> []" by auto
  then obtain y ys' where ys: "ys = y # ys'" by (cases ys) auto
  let ?P = "\<lambda>z. key z = key x"
  have sets: "set (x # xs) = set (y # ys')"
    using "2.prems"(3) ys by (metis set_mset_mset)
  have "key y \<le> key x"
  proof -
    from sets have "x \<in> set (y # ys')" by auto
    with "2.prems"(2) ys show ?thesis by auto
  qed
  moreover have "key x \<le> key y"
  proof -
    from sets have "y \<in> set (x # xs)" by auto
    with "2.prems"(1) show ?thesis by auto
  qed
  ultimately have k: "key y = key x" by simp
  have sy: "sorted (map key (y # ys'))" using "2.prems"(2) ys by simp
  have h1: "x # takeWhile ?P xs = filter ?P (x # xs)"
    by (rule sorted_head_run(1) [OF "2.prems"(1)])
  have h2: "y # takeWhile ?P ys' = filter ?P (y # ys')"
    using sorted_head_run(1) [OF sy] by (simp add: k)
  have d1: "dropWhile ?P xs = filter (\<lambda>z. key z \<noteq> key x) (x # xs)"
    by (rule sorted_head_run(2) [OF "2.prems"(1)])
  have d2: "dropWhile ?P ys' = filter (\<lambda>z. key z \<noteq> key x) (y # ys')"
    using sorted_head_run(2) [OF sy] by (simp add: k)
  have m: "mset (x # xs) = mset (y # ys')" using "2.prems"(3) ys by simp
  have m1: "mset (x # takeWhile ?P xs) = mset (y # takeWhile ?P ys')"
    unfolding h1 h2 by (simp only: mset_filter m)
  have m2: "mset (dropWhile ?P xs) = mset (dropWhile ?P ys')"
    unfolding d1 d2 by (simp only: mset_filter m)
  have s1: "sorted (map key (dropWhile ?P xs))"
    using "2.prems"(1) sorted_map_dropWhile [of key xs ?P] by simp
  have s2: "sorted (map key (dropWhile ?P ys'))"
    using sy sorted_map_dropWhile [of key ys' ?P] by simp
  from "2.IH" [OF s1 s2 m2]
  have "map (\<lambda>g. (key (hd g), mset g)) (groups key (dropWhile ?P xs)) =
      map (\<lambda>g. (key (hd g), mset g)) (groups key (dropWhile ?P ys'))" .
  with m1 show ?case by (simp add: ys k)
qed

lemma groups_map: "groups key (map f xs) = map (map f) (groups (\<lambda>x. key (f x)) xs)"
  by (induction "\<lambda>x. key (f x)" xs rule: groups.induct)
     (simp_all add: takeWhile_map dropWhile_map comp_def)

lemma for_indices_eq:
  "for_indices body its acc = Inr r \<longleftrightarrow>
   (\<forall>it\<in>set its. \<exists>oe. body it = Inr oe) \<and> r = acc @ admitted_entries body its"
proof (induction its arbitrary: acc)
  case Nil
  show ?case by (auto simp: admitted_entries_def map_filter_simps)
next
  case (Cons it its)
  show ?case
  proof (cases "body it")
    case (Inl e)
    then show ?thesis by simp
  next
    case (Inr oe)
    show ?thesis
    proof (cases oe)
      case None
      with Inr Cons show ?thesis by (simp add: admitted_entries_def map_filter_simps)
    next
      case (Some e)
      with Inr Cons show ?thesis by (simp add: admitted_entries_def map_filter_simps)
    qed
  qed
qed

lemma set_map_filter_iff: "y \<in> set (List.map_filter f xs) \<longleftrightarrow> (\<exists>x\<in>set xs. f x = Some y)"
  by (induction xs) (auto simp: map_filter_simps split: option.splits)

lemma admitted_entries_mem:
  "e \<in> set (admitted_entries body its) \<longleftrightarrow> (\<exists>it\<in>set its. body it = Inr (Some e))"
proof -
  have "(case body it of Inl e \<Rightarrow> None | Inr oe \<Rightarrow> oe) = Some e \<longleftrightarrow> body it = Inr (Some e)"
    for it
    by (cases "body it") auto
  then show ?thesis
    by (simp add: admitted_entries_def set_map_filter_iff)
qed

lemma assign_filtered:
  "filter_field_name s \<noteq> [] \<Longrightarrow>
   assign s c = filtered_body s c (getFieldIndex c (filter_field_name s))"
  by (rule ext) (simp add: assign_def)

lemma assign_plain: "filter_field_name s = [] \<Longrightarrow> assign s c = plain_body s c"
  by (rule ext) (simp add: assign_def)

lemma first_pass_eq:
  "first_pass s c = Inr (iv, d) \<longleftrightarrow>
   (\<forall>it\<in>set (indices s). \<exists>oe. assign s c it = Inr oe) \<and>
   iv = admitted_entries (assign s c) (indices s) \<and> d = first_pass_diagnostics s c"
proof (cases "filter_field_name s = []")
  case True
  then show ?thesis
    by (auto simp: first_pass_def first_pass_diagnostics_def assign_plain bind_res_eq_Inr
        for_indices_eq)
next
  case False
  then show ?thesis
    by (auto simp: first_pass_def first_pass_diagnostics_def assign_filtered bind_res_eq_Inr
        for_indices_eq Let_def)
qed

lemma point_at_Inr:
  "point_at c it = Inr p \<longleftrightarrow> 0 \<le> it \<and> nat it < length (points c) \<and> p = points c ! nat it"
  by (auto simp: point_at_def)

lemma assign_SomeD:
  assumes "assign s c it = Inr (Some e)"
  shows "point_at c it = Inr (point_of c e)"
    and "idx e = leaf_idx s (point_of c e)"
    and "cloud_point_index e = it"
    and "\<not> is_dense c \<Longrightarrow> \<not> invalid_point (point_of c e)"
proof -
  from assms obtain p where p: "point_at c it = Inr p"
    and e: "e = \<lparr>idx = leaf_idx s p, cloud_point_index = it\<rparr>"
    and f: "\<not> is_dense c \<longrightarrow> \<not> invalid_point p"
    by (auto simp: assign_def filtered_body_def plain_body_def skip_invalid_def bind_res_eq_Inr
        split: if_splits)
  from e have i: "idx e = leaf_idx s p" and ci: "cloud_point_index e = it" by simp_all
  from p have pe: "p = point_of c e"
    by (simp add: point_at_Inr point_of_def ci)
  from p show "point_at c it = Inr (point_of c e)" unfolding pe .
  from i show "idx e = leaf_idx s (point_of c e)" unfolding pe .
  from ci show "cloud_point_index e = it" .
  from f show "\<not> is_dense c \<Longrightarrow> \<not> invalid_point (point_of c e)" unfolding pe by simp
qed

lemma copy_points_valid:
  "\<forall>e\<in>set es. point_at c (cloud_point_index e) = Inr (point_of c e) \<Longrightarrow>
   copy_points c es = Inr (map (point_of c) es)"
  by (induction es) simp_all

lemma set_run_entries: "set (run_entries iv fl) \<subseteq> set iv"
proof -
  have "set (run_entries iv fl) \<subseteq> set (drop (fst fl) iv)"
    unfolding run_entries_def by (rule set_take_subset)
  also have "\<dots> \<subseteq> set iv" by (rule set_drop_subset)
  finally show ?thesis .
qed

lemma fourth_pass_eq:
  assumes valid: "\<forall>e\<in>set iv. point_at c (cloud_point_index e) = Inr (point_of c e)"
  shows "length pcv = index + length fls \<Longrightarrow>
     \<forall>j. index \<le> j \<longrightarrow> j < length pcv \<longrightarrow> pcv ! j = [] \<Longrightarrow>
     fourth_pass c save iv fls index pcv layout =
     (if save \<longrightarrow> (\<forall>k\<in>set (map (\<lambda>fl. idx (iv ! fst fl)) fls). unat k < length layout)
      then Inr (take index pcv @ map (map (point_of c)) (map (run_entries iv) fls),
                if save then record_cells (map (\<lambda>fl. idx (iv ! fst fl)) fls) index layout
                else layout)
      else Inl LeafLayoutOutOfRange)"
proof (induction fls arbitrary: index pcv layout)
  case Nil
  then show ?case by simp
next
  case (Cons fl rest)
  define ps where "ps = map (point_of c) (run_entries iv fl)"
  define pcv2 where "pcv2 = pcv[index := pcv ! index @ ps]"
  have cp: "copy_points c (run_entries iv fl) = Inr ps"
    unfolding ps_def using valid set_run_entries [of iv fl]
    by (intro copy_points_valid) blast
  from Cons.prems have lt: "index < length pcv" by simp
  with Cons.prems have e: "pcv ! index = []" by simp
  have len2: "length pcv2 = (index + 1) + length rest"
    using Cons.prems(1) by (simp add: pcv2_def)
  have emp2: "\<forall>j. index + 1 \<le> j \<longrightarrow> j < length pcv2 \<longrightarrow> pcv2 ! j = []"
    using Cons.prems(2) by (simp add: pcv2_def)
  have tk: "take (Suc index) pcv2 = take index pcv @ [map (point_of c) (run_entries iv fl)]"
    using lt by (simp add: pcv2_def e take_Suc_conv_app_nth ps_def)
  note ih = Cons.IH [OF len2 emp2]
  show ?case
  proof (cases save)
    case False
    then show ?thesis
      using ih [of layout] by (simp add: cp tk pcv2_def [symmetric])
  next
    case True
    show ?thesis
    proof (cases "unat (idx (iv ! fst fl)) < length layout")
      case False
      with True show ?thesis by (simp add: cp)
    next
      case k: True
      with True show ?thesis
        using ih [of "layout[unat (idx (iv ! fst fl)) := word_of_nat index]"]
        by (simp add: cp tk pcv2_def [symmetric])
    qed
  qed
qed

lemma length_record_cells [simp]: "length (record_cells ks index layout) = length layout"
  by (induction ks arbitrary: index layout) simp_all

lemma record_cells_other:
  "\<forall>k\<in>set ks. unat k \<noteq> j \<Longrightarrow> record_cells ks index layout ! j = layout ! j"
  by (induction ks arbitrary: index layout) simp_all

lemma record_cells_nth:
  "distinct ks \<Longrightarrow> \<forall>k\<in>set ks. unat k < length layout \<Longrightarrow> n < length ks \<Longrightarrow>
   record_cells ks index layout ! unat (ks ! n) = word_of_nat (index + n)"
proof (induction ks arbitrary: index layout n)
  case Nil
  then show ?case by simp
next
  case (Cons k ks)
  show ?case
  proof (cases n)
    case 0
    have "unat k' \<noteq> unat k" if "k' \<in> set ks" for k'
    proof -
      from that Cons.prems(1) have "k' \<noteq> k" by auto
      then show ?thesis using word_unat_eq_iff by blast
    qed
    then have "\<forall>k'\<in>set ks. unat k' \<noteq> unat k" by blast
    then have "record_cells ks (index + 1) (layout[unat k := word_of_nat index]) ! unat k =
        (layout[unat k := word_of_nat index]) ! unat k"
      by (rule record_cells_other)
    with Cons.prems(2) 0 show ?thesis by simp
  next
    case (Suc m)
    with Cons.prems have "record_cells ks (index + 1) (layout[unat k := word_of_nat index]) ! unat (ks ! m) =
        word_of_nat (index + 1 + m)"
      by (intro Cons.IH) simp_all
    with Suc show ?thesis by simp
  qed
qed

lemma record_cells_cases:
  "j < length layout \<Longrightarrow>
   record_cells ks index layout ! j = layout ! j \<or>
   (\<exists>n<length ks. j = unat (ks ! n) \<and> record_cells ks index layout ! j = word_of_nat (index + n))"
proof (induction ks arbitrary: index layout)
  case Nil
  then show ?case by simp
next
  case (Cons k ks)
  from Cons.prems have j: "j < length (layout[unat k := word_of_nat index])" by simp
  from Cons.IH [OF j, of "index + 1"]
  show ?case
  proof
    assume a: "record_cells ks (index + 1) (layout[unat k := word_of_nat index]) ! j =
      layout[unat k := word_of_nat index] ! j"
    show ?thesis
    proof (cases "j = unat k")
      case True
      with a Cons.prems have "record_cells (k # ks) index layout ! j = word_of_nat (index + 0)"
        by simp
      with True show ?thesis by (intro disjI2 exI [of _ 0]) simp
    next
      case False
      with a show ?thesis by simp
    qed
  next
    assume "\<exists>n<length ks. j = unat (ks ! n) \<and>
      record_cells ks (index + 1) (layout[unat k := word_of_nat index]) ! j = word_of_nat (index + 1 + n)"
    then obtain n where "n < length ks" "j = unat (ks ! n)"
      "record_cells ks (index + 1) (layout[unat k := word_of_nat index]) ! j = word_of_nat (index + 1 + n)"
      by blast
    then show ?thesis by (intro disjI2 exI [of _ "Suc n"]) simp
  qed
qed

lemma reinit_layout_eq:
  assumes "length (leaf_layout s) < 2 ^ 32"
  shows "reinit_layout env s =
     (if unat (v0 (div_b s) * v1 (div_b s) * v2 (div_b s)) \<le> max_layout_size env
      then Inr (replicate (unat (v0 (div_b s) * v1 (div_b s) * v2 (div_b s))) (- 1))
      else Inl PCLException)"
proof -
  have m: "length (leaf_layout s) mod 2 ^ 32 = length (leaf_layout s)"
    using assms by simp
  have r: "resize (map (\<lambda>i. if i < min n (length (leaf_layout s)) then - 1 else leaf_layout s ! i)
        [0..<length (leaf_layout s)]) n (- 1) = replicate n (- 1)" for n
    by (rule nth_equalityI) (auto simp: resize_def nth_append)
  show ?thesis
    unfolding reinit_layout_def Let_def m r by (rule refl)
qed

lemma set_grid_fields [simp]:
  "input (set_grid s a b) = input s"
  "indices (set_grid s a b) = indices s"
  "inverse_leaf_size (set_grid s a b) = inverse_leaf_size s"
  "save_leaf_layout (set_grid s a b) = save_leaf_layout s"
  "leaf_layout (set_grid s a b) = leaf_layout s"
  "filter_field_name (set_grid s a b) = filter_field_name s"
  "filter_limit_min (set_grid s a b) = filter_limit_min s"
  "filter_limit_max (set_grid s a b) = filter_limit_max s"
  "filter_limit_negative (set_grid s a b) = filter_limit_negative s"
  "min_points_per_voxel (set_grid s a b) = min_points_per_voxel s"
  by (simp_all add: set_grid_def Let_def)

lemma applyPartition_proceeds:
  "input s = Some c \<Longrightarrow> proceeds env s \<Longrightarrow>
   applyPartition env s = partition_cells env (grid env s) c"
  by (simp add: applyPartition_def proceeds_def grid_def Let_def)

lemma partition_cells_eq:
  assumes srt: "is_std_sort (std_sort env)"
    and fp: "first_pass g c = Inr (unsorted, d)"
  shows "partition_cells env g c =
     bind_res (if save_leaf_layout g then reinit_layout env g else Inr (leaf_layout g))
       (\<lambda>layout.
         if save_leaf_layout g \<longrightarrow>
            (\<forall>k\<in>set (map (\<lambda>run. idx (hd run))
                (surviving_runs (min_points_per_voxel g) (std_sort env unsorted))).
              unat k < length layout)
         then Inr \<lparr>self = g\<lparr>leaf_layout :=
                      (if save_leaf_layout g
                       then record_cells (map (\<lambda>run. idx (hd run))
                              (surviving_runs (min_points_per_voxel g) (std_sort env unsorted)))
                              0 layout
                       else layout)\<rparr>,
                   pc_vector = map (map (point_of c))
                     (surviving_runs (min_points_per_voxel g) (std_sort env unsorted)),
                   diagnostics = d\<rparr>
         else Inl LeafLayoutOutOfRange)"
proof -
  define iv where "iv = std_sort env unsorted"
  define G where "G = surviving_runs (min_points_per_voxel g) iv"
  obtain tot fls where tp: "third_pass iv (min_points_per_voxel g) 0 0 [] = (tot, fls)"
    by (cases "third_pass iv (min_points_per_voxel g) 0 0 []") auto
  from third_pass_runs [of 0 iv "min_points_per_voxel g" 0 "[]"] tp
  have tot: "tot = length G" and runs: "map (run_entries iv) fls = G"
    and heads: "map (\<lambda>fl. iv ! fst fl) fls = map hd G"
    by (simp_all add: G_def surviving_runs_def)
  from runs have lf: "length fls = length G" by (metis length_map)
  have keys: "map (\<lambda>fl. idx (iv ! fst fl)) fls = map (\<lambda>run. idx (hd run)) G"
  proof -
    have "map (\<lambda>fl. idx (iv ! fst fl)) fls = map idx (map (\<lambda>fl. iv ! fst fl) fls)"
      by (simp add: comp_def)
    also have "\<dots> = map idx (map hd G)" by (simp only: heads)
    finally show ?thesis by (simp add: comp_def)
  qed
  have valid: "\<forall>e\<in>set iv. point_at c (cloud_point_index e) = Inr (point_of c e)"
  proof
    fix e assume "e \<in> set iv"
    moreover from srt have "mset iv = mset unsorted" by (simp add: iv_def is_std_sort_def)
    ultimately have "e \<in> set unsorted" by (metis set_mset_mset)
    with fp obtain it where "assign g c it = Inr (Some e)"
      by (auto simp: first_pass_eq admitted_entries_mem)
    from assign_SomeD(1,3) [OF this]
    show "point_at c (cloud_point_index e) = Inr (point_of c e)" by simp
  qed
  have fo: "fourth_pass c (save_leaf_layout g) iv fls 0 (replicate tot []) layout =
     (if save_leaf_layout g \<longrightarrow> (\<forall>k\<in>set (map (\<lambda>run. idx (hd run)) G). unat k < length layout)
      then Inr (map (map (point_of c)) G,
                if save_leaf_layout g then record_cells (map (\<lambda>run. idx (hd run)) G) 0 layout
                else layout)
      else Inl LeafLayoutOutOfRange)" for layout
    using fourth_pass_eq [OF valid, of "replicate tot []" 0 fls "save_leaf_layout g" layout]
    by (simp only: keys runs) (simp add: tot lf)
  show ?thesis
  proof (cases "save_leaf_layout g")
    case False
    with fo [of "leaf_layout g"]
    have "fourth_pass c False iv fls 0 (replicate tot []) (leaf_layout g) =
        Inr (map (map (point_of c)) G, leaf_layout g)"
      by simp
    with False show ?thesis
      unfolding partition_cells_def fp
      by (simp add: iv_def [symmetric] tp G_def [symmetric])
  next
    case True
    show ?thesis
    proof (cases "reinit_layout env g")
      case (Inl e)
      with True show ?thesis
        unfolding partition_cells_def fp
        by (simp add: iv_def [symmetric] tp)
    next
      case (Inr layout)
      from fo [of layout] True
      have "fourth_pass c True iv fls 0 (replicate tot []) layout =
         (if \<forall>k\<in>set (map (\<lambda>run. idx (hd run)) G). unat k < length layout
          then Inr (map (map (point_of c)) G, record_cells (map (\<lambda>run. idx (hd run)) G) 0 layout)
          else Inl LeafLayoutOutOfRange)"
        by simp
      with True Inr show ?thesis
        unfolding partition_cells_def fp
        by (simp add: iv_def [symmetric] tp G_def [symmetric])
    qed
  qed
qed

lemma sint_word_of_nat_32: "p < 2 ^ 31 \<Longrightarrow> sint (word_of_nat p :: 32 word) = int p"
  by (simp add: signed_of_nat signed_take_bit_int_eq_self)

lemma word_of_int_sint_32: "word_of_int (sint a) = (a :: 32 word)"
  by transfer simp

lemma uint_prod_sint: "uint (a * b * c :: 32 word) = (sint a * sint b * sint c) mod 2 ^ 32"
proof -
  have "a * b * c = word_of_int (sint a * sint b * sint c)"
    by (simp add: word_of_int_sint_32)
  then have "uint (a * b * c) = uint (word_of_int (sint a * sint b * sint c) :: 32 word)"
    by simp
  also have "\<dots> = (sint a * sint b * sint c) mod 2 ^ 32"
    by (simp only: uint_word_of_int) simp
  finally show ?thesis .
qed

lemma unat_prod_sint:
  assumes "0 \<le> sint a * sint b * sint c" and "sint a * sint b * sint c < 2 ^ 32"
  shows "int (unat (a * b * c :: 32 word)) = sint a * sint b * sint c"
proof -
  have "int (unat (a * b * c)) = uint (a * b * c)" by simp
  also have "\<dots> = (sint a * sint b * sint c) mod 2 ^ 32" by (rule uint_prod_sint)
  also from assms have "\<dots> = sint a * sint b * sint c" by simp
  finally show ?thesis .
qed

lemma mset_length_filter: "mset xs = mset ys \<Longrightarrow> length (filter P xs) = length (filter P ys)"
proof -
  assume "mset xs = mset ys"
  then have "mset (filter P xs) = mset (filter P ys)" by simp
  then show ?thesis by (metis size_mset)
qed

lemma length_groups_le: "length (groups key xs) \<le> length xs"
proof (induction key xs rule: groups.induct)
  case (1 key)
  show ?case by simp
next
  case (2 key x xs)
  have "length (dropWhile (\<lambda>y. key y = key x) xs) \<le> length xs"
    by (rule length_dropWhile_le)
  with "2.IH" show ?case by simp
qed

lemma is_std_sortD:
  assumes "is_std_sort srt"
  shows "sorted (map idx (srt xs))" and "mset (srt xs) = mset xs" and "set (srt xs) = set xs"
proof -
  from assms show "sorted (map idx (srt xs))" and m: "mset (srt xs) = mset xs"
    by (simp_all add: is_std_sort_def)
  from m show "set (srt xs) = set xs" by (metis set_mset_mset)
qed

lemma surviving_runsD:
  assumes "sorted (map idx iv)" and "run \<in> set (surviving_runs mp iv)"
  shows "run \<noteq> []" and "set run \<subseteq> set iv"
    and "run = filter (\<lambda>y. idx y = idx (hd run)) iv" and "unat mp \<le> length run"
proof -
  from assms(2) have g: "run \<in> set (groups idx iv)" and l: "unat mp \<le> length run"
    by (simp_all add: surviving_runs_def)
  from g show "run \<noteq> []" by (rule groups_nonempty)
  from g show "set run \<subseteq> set iv" by (rule groups_subset)
  from assms(1) g show "run = filter (\<lambda>y. idx y = idx (hd run)) iv" by (rule groups_are_filters)
  from l show "unat mp \<le> length run" .
qed

lemma surviving_runs_keys_ascending:
  assumes "sorted (map idx iv)"
  shows "sorted_wrt (<) (map (\<lambda>run. idx (hd run)) (surviving_runs mp iv))"
proof -
  from assms have "sorted_wrt (<) (map (\<lambda>g. idx (hd g)) (groups idx iv))"
    by (rule groups_keys_ascending)
  then have "sorted_wrt (\<lambda>a b. idx (hd a) < idx (hd b)) (groups idx iv)"
    by (simp add: sorted_wrt_map)
  then have "sorted_wrt (\<lambda>a b. idx (hd a) < idx (hd b)) (surviving_runs mp iv)"
    unfolding surviving_runs_def by (rule sorted_wrt_filter)
  then show ?thesis by (simp add: sorted_wrt_map)
qed

lemma surviving_runs_member:
  "sorted (map idx iv) \<Longrightarrow> e \<in> set iv \<Longrightarrow>
   unat mp \<le> length (filter (\<lambda>y. idx y = idx e) iv) \<Longrightarrow>
   filter (\<lambda>y. idx y = idx e) iv \<in> set (surviving_runs mp iv)"
  by (simp add: surviving_runs_def groups_member)

lemma first_pass_entry:
  assumes "first_pass g c = Inr (unsorted, d)"
  shows "e \<in> set unsorted \<longleftrightarrow> (\<exists>it\<in>set (indices g). assign g c it = Inr (Some e))"
  using assms by (auto simp: first_pass_eq admitted_entries_mem)

lemma length_filter_map_filter:
  "length (filter Q (List.map_filter f xs)) =
   length (filter (\<lambda>x. case f x of None \<Rightarrow> False | Some y \<Rightarrow> Q y) xs)"
  by (induction xs) (auto simp: map_filter_simps split: option.splits)

lemma count_cell:
  "length (filter (\<lambda>e. idx e = k) (admitted_entries (assign g c) its)) =
   length (filter (\<lambda>it. cell_of g c it = Some k) its)"
proof -
  have "(case (case assign g c it of Inl e \<Rightarrow> None | Inr oe \<Rightarrow> oe) of
           None \<Rightarrow> False | Some y \<Rightarrow> idx y = k) = (cell_of g c it = Some k)" for it
    by (simp add: cell_of_def split: sum.splits option.splits)
  then show ?thesis
    by (simp add: admitted_entries_def length_filter_map_filter)
qed

lemma grid_fields [simp]:
  "input (grid env s) = input s"
  "indices (grid env s) = indices s"
  "inverse_leaf_size (grid env s) = inverse_leaf_size s"
  "save_leaf_layout (grid env s) = save_leaf_layout s"
  "leaf_layout (grid env s) = leaf_layout s"
  "filter_field_name (grid env s) = filter_field_name s"
  "min_points_per_voxel (grid env s) = min_points_per_voxel s"
  by (simp_all add: grid_def)

lemma applyPartition_Inr:
  assumes ret: "applyPartition env s = Inr r" and inp: "input s = Some c"
    and pr: "proceeds env s" and srt: "is_std_sort (std_sort env)"
  shows "\<exists>unsorted. first_pass (grid env s) c = Inr (unsorted, diagnostics r) \<and>
      pc_vector r = map (map (point_of c))
        (surviving_runs (min_points_per_voxel s) (std_sort env unsorted)) \<and>
      (if save_leaf_layout s
       then \<exists>layout. reinit_layout env (grid env s) = Inr layout \<and>
              (\<forall>k\<in>set (map (\<lambda>run. idx (hd run))
                  (surviving_runs (min_points_per_voxel s) (std_sort env unsorted))).
                unat k < length layout) \<and>
              self r = (grid env s)\<lparr>leaf_layout :=
                record_cells (map (\<lambda>run. idx (hd run))
                  (surviving_runs (min_points_per_voxel s) (std_sort env unsorted))) 0 layout\<rparr>
       else self r = (grid env s)\<lparr>leaf_layout := leaf_layout s\<rparr>)"
proof -
  let ?g = "grid env s"
  from ret inp pr have pc: "partition_cells env ?g c = Inr r"
    by (simp add: applyPartition_proceeds)
  then obtain unsorted d where fp: "first_pass ?g c = Inr (unsorted, d)"
    by (auto simp: partition_cells_def bind_res_eq_Inr)
  note eq = partition_cells_eq [OF srt fp]
  show ?thesis
  proof (cases "save_leaf_layout s")
    case False
    with pc eq have "r = \<lparr>self = ?g\<lparr>leaf_layout := leaf_layout s\<rparr>,
        pc_vector = map (map (point_of c))
          (surviving_runs (min_points_per_voxel s) (std_sort env unsorted)),
        diagnostics = d\<rparr>"
      by simp
    with fp False show ?thesis by simp
  next
    case True
    let ?G = "surviving_runs (min_points_per_voxel s) (std_sort env unsorted)"
    let ?keys = "map (\<lambda>run. idx (hd run)) ?G"
    from eq True have eq': "partition_cells env ?g c =
        bind_res (reinit_layout env ?g) (\<lambda>layout.
          if \<forall>k\<in>set ?keys. unat k < length layout
          then Inr \<lparr>self = ?g\<lparr>leaf_layout := record_cells ?keys 0 layout\<rparr>,
                 pc_vector = map (map (point_of c)) ?G, diagnostics = d\<rparr>
          else Inl LeafLayoutOutOfRange)"
      by (simp cong: if_cong)
    from pc [unfolded eq'] obtain layout where rl: "reinit_layout env ?g = Inr layout"
      and rest: "(if \<forall>k\<in>set ?keys. unat k < length layout
          then Inr \<lparr>self = ?g\<lparr>leaf_layout := record_cells ?keys 0 layout\<rparr>,
                 pc_vector = map (map (point_of c)) ?G, diagnostics = d\<rparr>
          else Inl LeafLayoutOutOfRange) = Inr r"
      unfolding bind_res_eq_Inr by blast
    from rest have k: "\<forall>k\<in>set ?keys. unat k < length layout"
      by (simp split: if_splits)
    with rest have "r = \<lparr>self = ?g\<lparr>leaf_layout := record_cells ?keys 0 layout\<rparr>,
                 pc_vector = map (map (point_of c)) ?G, diagnostics = d\<rparr>"
      by simp
    with fp True rl k show ?thesis by auto
  qed
qed

lemma run_cell:
  assumes fp: "first_pass g c = Inr (unsorted, d)" and srt: "is_std_sort srt"
    and run: "run \<in> set (surviving_runs mp (srt unsorted))" and e: "e \<in> set run"
  shows "leaf_idx g (point_of c e) = idx (hd run)"
proof -
  note s = is_std_sortD [OF srt, of unsorted]
  note r = surviving_runsD [OF s(1) run]
  from r(2) e s(3) have "e \<in> set unsorted" by auto
  with fp obtain it where "assign g c it = Inr (Some e)"
    by (auto simp: first_pass_entry)
  then have "idx e = leaf_idx g (point_of c e)" by (rule assign_SomeD(2))
  moreover from r(3) e have "e \<in> set (filter (\<lambda>y. idx y = idx (hd run)) (srt unsorted))"
    by simp
  then have "idx e = idx (hd run)" by simp
  ultimately show ?thesis by simp
qed

lemma clusters_disjoint:
  assumes fp: "first_pass g c = Inr (unsorted, d)" and srt: "is_std_sort srt"
    and ij: "i < j" and j: "j < length (surviving_runs mp (srt unsorted))"
  shows "set (map (point_of c) (surviving_runs mp (srt unsorted) ! i)) \<inter>
         set (map (point_of c) (surviving_runs mp (srt unsorted) ! j)) = {}"
proof (rule ccontr)
  let ?G = "surviving_runs mp (srt unsorted)"
  assume "\<not> ?thesis"
  then obtain p where "p \<in> set (map (point_of c) (?G ! i))" and "p \<in> set (map (point_of c) (?G ! j))"
    by blast
  then obtain e1 e2 where e1: "e1 \<in> set (?G ! i)" and p1: "p = point_of c e1"
    and e2: "e2 \<in> set (?G ! j)" and p2: "p = point_of c e2"
    by auto
  from ij j have gi: "?G ! i \<in> set ?G" and gj: "?G ! j \<in> set ?G" by simp_all
  from run_cell [OF fp srt gi e1] run_cell [OF fp srt gj e2] p1 p2
  have same: "idx (hd (?G ! i)) = idx (hd (?G ! j))" by simp
  have "sorted_wrt (<) (map (\<lambda>run. idx (hd run)) ?G)"
    by (rule surviving_runs_keys_ascending) (rule is_std_sortD(1) [OF srt])
  then have "sorted_wrt (\<lambda>a b. idx (hd a) < idx (hd b)) ?G"
    by (simp add: sorted_wrt_map)
  from sorted_wrt_nth_less [OF this ij j] same show False by simp
qed

lemma in_cluster_iff:
  assumes fp: "first_pass g c = Inr (unsorted, d)" and srt: "is_std_sort srt"
    and it: "it \<in> set (indices g)" and cell: "cell_of g c it = Some k"
  shows "(\<exists>cl\<in>set (map (map (point_of c)) (surviving_runs mp (srt unsorted))).
           points c ! nat it \<in> set cl) \<longleftrightarrow>
         unat mp \<le> length (filter (\<lambda>it'. cell_of g c it' = Some k) (indices g))"
proof -
  define iv where "iv = srt unsorted"
  note s = is_std_sortD [OF srt, of unsorted, folded iv_def]
  from cell obtain e where a: "assign g c it = Inr (Some e)" and ke: "idx e = k"
    by (auto simp: cell_of_def split: sum.splits option.splits)
  from assign_SomeD(3) [OF a] have pe: "point_of c e = points c ! nat it"
    by (simp add: point_of_def)
  from assign_SomeD(2) [OF a] pe ke have kp: "leaf_idx g (points c ! nat it) = k" by simp
  from fp it a have "e \<in> set unsorted" by (auto simp: first_pass_entry)
  with s(3) have ein: "e \<in> set iv" by simp
  from fp have u: "unsorted = admitted_entries (assign g c) (indices g)"
    by (simp add: first_pass_eq)
  have cnt: "length (filter (\<lambda>y. idx y = k) iv) =
      length (filter (\<lambda>it'. cell_of g c it' = Some k) (indices g))"
    using mset_length_filter [OF s(2), of "\<lambda>y. idx y = k"] by (simp add: u count_cell)
  show ?thesis
  proof
    assume "\<exists>cl\<in>set (map (map (point_of c)) (surviving_runs mp (srt unsorted))).
      points c ! nat it \<in> set cl"
    then obtain run e' where run: "run \<in> set (surviving_runs mp iv)" and e': "e' \<in> set run"
      and pe': "point_of c e' = points c ! nat it"
      by (auto simp: iv_def)
    note r = surviving_runsD [OF s(1) run]
    from run_cell [OF fp srt run [unfolded iv_def] e'] pe' kp have "idx (hd run) = k" by simp
    with r(3) have "run = filter (\<lambda>y. idx y = k) iv" by simp
    with r(4) cnt show "unat mp \<le> length (filter (\<lambda>it'. cell_of g c it' = Some k) (indices g))"
      by simp
  next
    assume "unat mp \<le> length (filter (\<lambda>it'. cell_of g c it' = Some k) (indices g))"
    with cnt ke have "unat mp \<le> length (filter (\<lambda>y. idx y = idx e) iv)" by simp
    with s(1) ein have "filter (\<lambda>y. idx y = idx e) iv \<in> set (surviving_runs mp iv)"
      by (rule surviving_runs_member)
    moreover from ein have "e \<in> set (filter (\<lambda>y. idx y = idx e) iv)" by simp
    ultimately show "\<exists>cl\<in>set (map (map (point_of c)) (surviving_runs mp (srt unsorted))).
      points c ! nat it \<in> set cl"
      using pe unfolding iv_def by (metis (no_types, lifting) image_eqI list.set_map)
  qed
qed

lemma floor_rat_divide_numeral [simp]:
  "\<lfloor>numeral a / numeral b :: rat\<rfloor> = numeral a div numeral b"
  by (metis floor_divide_of_int_eq of_int_numeral)

lemma floor_rat_one_divide_numeral [simp]:
  "\<lfloor>1 / numeral b :: rat\<rfloor> = 1 div numeral b"
  by (metis floor_divide_of_int_eq of_int_1 of_int_numeral)

lemma is_std_sort_sort_key: "is_std_sort (sort_key idx)"
  by (simp add: is_std_sort_def)

lemma env_for_fields [simp]:
  "getMinMax3D (env_for x0 y0 z0 x1 y1 z1) = ((Num x0, Num y0, Num z0), (Num x1, Num y1, Num z1))"
  "std_sort (env_for x0 y0 z0 x1 y1 z1) = sort_key idx"
  "max_layout_size (env_for x0 y0 z0 x1 y1 z1) = 2 ^ 20"
  by (simp_all add: env_for_def)

lemmas grid_eval =
  grid_def set_grid_def bound_def float_to_int_def trunc_rat_def filter_for_def Let_def

lemmas check_eval =
  proceeds_def leaf_size_too_small_def division_count_def float_to_int64_def trunc_rat_def
  filter_for_def Let_def

lemmas first_pass_eval =
  first_pass_def plain_body_def filtered_body_def skip_invalid_def point_at_def leaf_idx_def
  ijk_def int_to_float_def field_offset_def read_field_def getFieldIndex_def cut_out_def
  invalid_point_def xyz_def cloud_of_def

lemma applyPartition_run:
  assumes srt: "is_std_sort (std_sort env)" and inp: "input s = Some c"
    and pr: "proceeds env s" and fp: "first_pass (grid env s) c = Inr (unsorted, d)"
    and ns: "\<not> save_leaf_layout s"
  shows "applyPartition env s =
     Inr \<lparr>self = (grid env s)\<lparr>leaf_layout := leaf_layout s\<rparr>,
          pc_vector = map (map (point_of c))
            (surviving_runs (min_points_per_voxel s) (std_sort env unsorted)),
          diagnostics = d\<rparr>"
  using partition_cells_eq [OF srt fp] ns by (simp add: applyPartition_proceeds [OF inp pr])

lemma near_limit_proceeds: "proceeds near_limit_env near_limit_filter"
  by (simp add: near_limit_env_def near_limit_filter_def check_eval)

lemma near_limit_div_b: "div_b (grid near_limit_env near_limit_filter) = (1291, 1291, 1291)"
  by (simp add: near_limit_env_def near_limit_filter_def grid_eval)

lemma near_limit_first_pass:
  "first_pass (grid near_limit_env near_limit_filter) near_limit_cloud =
   Inr ([\<lparr>idx = 0, cloud_point_index = 0\<rparr>, \<lparr>idx = 2151685170, cloud_point_index = 1\<rparr>], [])"
  by (simp add: near_limit_env_def near_limit_filter_def near_limit_cloud_def grid_eval
      first_pass_eval)

text \<open>
  Claim C2. The two points pass the overflow check (1290 * 1290 * 1290 is below
  \<open>2 ^ 31\<close>), no diagnostic is emitted, and the grid that the call then sets and uses has
  1291 divisions on every axis, whose product 2151685171 is above 2147483647.
\<close>

theorem grid_product_above_int32_after_check:
  "proceeds near_limit_env near_limit_filter \<and>
   (\<exists>r. applyPartition near_limit_env near_limit_filter = Inr r \<and> diagnostics r = [] \<and>
        sint (v0 (div_b (self r))) * sint (v1 (div_b (self r))) * sint (v2 (div_b (self r))) =
          2151685171) \<and>
   (2147483647 :: int) < 2151685171"
proof -
  have inp: "input near_limit_filter = Some near_limit_cloud"
    by (simp add: near_limit_filter_def filter_for_def)
  have srt: "is_std_sort (std_sort near_limit_env)"
    by (simp add: near_limit_env_def is_std_sort_sort_key)
  have ns: "\<not> save_leaf_layout near_limit_filter"
    by (simp add: near_limit_filter_def filter_for_def)
  note run = applyPartition_run [OF srt inp near_limit_proceeds near_limit_first_pass ns]
  show ?thesis
    by (simp add: run near_limit_proceeds near_limit_div_b)
qed

lemma far_point_proceeds: "proceeds far_point_env far_point_filter"
  by (simp add: far_point_env_def far_point_filter_def check_eval)

lemma far_point_first_pass:
  "first_pass (grid far_point_env far_point_filter) far_point_cloud =
   Inr ([\<lparr>idx = 0, cloud_point_index = 0\<rparr>, \<lparr>idx = 2147483650, cloud_point_index = 1\<rparr>], [])"
  by (simp add: far_point_env_def far_point_filter_def far_point_cloud_def grid_eval
      first_pass_eval)

text \<open>
  Claim C4. For the two points the division counts are \<open>2 ^ 62 + 1\<close>, 3 and 1. Their
  product is above \<open>2 ^ 31 - 1\<close>, but the 64-bit multiplication of the check wraps to a
  negative number: no diagnostic is emitted and the result is not empty.
\<close>

theorem overflow_check_missed_when_product_wraps:
  "sint (division_count (Num 0) (Num (2 ^ 62)) (Num 1)) *
   sint (division_count (Num 0) (Num 2) (Num 1)) *
   sint (division_count (Num 0) (Num 0) (Num 1)) = 13835058055282163715 \<and>
   (2147483647 :: int) < 13835058055282163715 \<and>
   (\<exists>r. applyPartition far_point_env far_point_filter = Inr r \<and> diagnostics r = [] \<and>
        pc_vector r = [[xyz 0 0 0], [xyz (2 ^ 62) 2 0]])"
proof -
  have inp: "input far_point_filter = Some far_point_cloud"
    by (simp add: far_point_filter_def filter_for_def)
  have srt: "is_std_sort (std_sort far_point_env)"
    by (simp add: far_point_env_def is_std_sort_sort_key)
  have ns: "\<not> save_leaf_layout far_point_filter"
    by (simp add: far_point_filter_def filter_for_def)
  have mp: "min_points_per_voxel far_point_filter = 0"
    by (simp add: far_point_filter_def filter_for_def)
  note run = applyPartition_run [OF srt inp far_point_proceeds far_point_first_pass ns]
  have d: "sint (division_count (Num 0) (Num (2 ^ 62)) (Num 1)) *
   sint (division_count (Num 0) (Num 2) (Num 1)) *
   sint (division_count (Num 0) (Num 0) (Num 1)) = 13835058055282163715"
    by (simp add: division_count_def float_to_int64_def trunc_rat_def)
  have r: "\<exists>r. applyPartition far_point_env far_point_filter = Inr r \<and> diagnostics r = [] \<and>
        pc_vector r = [[xyz 0 0 0], [xyz (2 ^ 62) 2 0]]"
    unfolding run
    by (simp add: mp far_point_env_def surviving_runs_def point_of_def far_point_cloud_def
        cloud_of_def)
  from d r show ?thesis by simp
qed

text \<open>
  Claim C3. The cloud has the fields x, y and z and the filter field is \<open>intensity\<close>:
  the lookup returns -1 and the first candidate reads \<^verbatim>\<open>fields[-1]\<close>, outside the vector.
  With no filter field the same call returns the two points in two clusters.
\<close>

theorem invalid_filter_field_is_read_out_of_range:
  "getFieldIndex unit_cloud (filter_field_name intensity_filter) = - 1 \<and>
   applyPartition unit_env intensity_filter = Inl FieldIndexOutOfRange \<and>
   (\<exists>r. applyPartition unit_env (intensity_filter\<lparr>filter_field_name := []\<rparr>) = Inr r \<and>
        pc_vector r = [[xyz 0 0 0], [xyz 1 1 1]])"
proof -
  have a: "getFieldIndex unit_cloud (filter_field_name intensity_filter) = - 1"
    by (simp add: getFieldIndex_def unit_cloud_def cloud_of_def intensity_filter_def)
  have b: "applyPartition unit_env intensity_filter = Inl FieldIndexOutOfRange"
    by (simp add: applyPartition_def partition_cells_def unit_env_def intensity_filter_def
        unit_cloud_def check_eval grid_eval first_pass_eval)
  have inp: "input (intensity_filter\<lparr>filter_field_name := []\<rparr>) = Some unit_cloud"
    by (simp add: intensity_filter_def filter_for_def)
  have srt: "is_std_sort (std_sort unit_env)"
    by (simp add: unit_env_def is_std_sort_sort_key)
  have ns: "\<not> save_leaf_layout (intensity_filter\<lparr>filter_field_name := []\<rparr>)"
    by (simp add: intensity_filter_def filter_for_def)
  have pr: "proceeds unit_env (intensity_filter\<lparr>filter_field_name := []\<rparr>)"
    by (simp add: unit_env_def intensity_filter_def check_eval)
  have fp: "first_pass (grid unit_env (intensity_filter\<lparr>filter_field_name := []\<rparr>)) unit_cloud =
      Inr ([\<lparr>idx = 0, cloud_point_index = 0\<rparr>, \<lparr>idx = 7, cloud_point_index = 1\<rparr>], [])"
    by (simp add: unit_env_def intensity_filter_def unit_cloud_def grid_eval first_pass_eval)
  have c: "\<exists>r. applyPartition unit_env (intensity_filter\<lparr>filter_field_name := []\<rparr>) = Inr r \<and>
        pc_vector r = [[xyz 0 0 0], [xyz 1 1 1]]"
    unfolding applyPartition_run [OF srt inp pr fp ns]
    by (simp add: intensity_filter_def filter_for_def
        unit_env_def surviving_runs_def point_of_def unit_cloud_def cloud_of_def)
  from a b c show ?thesis by simp
qed

lemma pair_filter_fields:
  "input pair_filter = Some three_point_cloud"
  "indices pair_filter = [0, 1, 2]"
  "\<not> save_leaf_layout pair_filter"
  "min_points_per_voxel pair_filter = 2"
  "is_std_sort (std_sort three_point_env)"
  by (simp_all add: pair_filter_def filter_for_def three_point_env_def is_std_sort_sort_key)

lemma pair_proceeds: "proceeds three_point_env pair_filter"
  by (simp add: three_point_env_def pair_filter_def check_eval)

lemma pair_first_pass:
  "first_pass (grid three_point_env pair_filter) three_point_cloud =
   Inr ([\<lparr>idx = 0, cloud_point_index = 0\<rparr>, \<lparr>idx = 215, cloud_point_index = 1\<rparr>,
         \<lparr>idx = 215, cloud_point_index = 2\<rparr>], [])"
  by (simp add: three_point_env_def pair_filter_def three_point_cloud_def grid_eval
      first_pass_eval)

lemma pair_cells:
  "cell_of (grid three_point_env pair_filter) three_point_cloud 0 = Some 0"
  "cell_of (grid three_point_env pair_filter) three_point_cloud 1 = Some 215"
  "cell_of (grid three_point_env pair_filter) three_point_cloud 2 = Some 215"
  by (simp_all add: cell_of_def assign_def three_point_env_def pair_filter_def
      three_point_cloud_def grid_eval first_pass_eval)

lemma pair_run:
  "\<exists>r. applyPartition three_point_env pair_filter = Inr r \<and>
       pc_vector r = [[xyz (21/4) (21/4) (21/4), xyz (11/2) (11/2) (11/2)]]"
  unfolding applyPartition_run [OF pair_filter_fields(5) pair_filter_fields(1) pair_proceeds
      pair_first_pass pair_filter_fields(3)]
  by (simp add: pair_filter_fields three_point_env_def surviving_runs_def point_of_def
      three_point_cloud_def cloud_of_def)

text \<open>
  Claim C1. When the call returns past the overflow check: no point record is in two
  output clusters, and the point of an admitted candidate is in some output cluster exactly
  when the number of admitted candidates with its linear cell index is at least
  \<^verbatim>\<open>min_points_per_voxel_\<close>; in particular the points of a shorter run are in no cluster.
\<close>

theorem admitted_point_in_one_cluster_iff_cell_occupied:
  assumes ret: "applyPartition env s = Inr r" and inp: "input s = Some c"
    and pr: "proceeds env s" and srt: "is_std_sort (std_sort env)"
  shows "(\<forall>i j. i < j \<and> j < length (pc_vector r) \<longrightarrow>
            set (pc_vector r ! i) \<inter> set (pc_vector r ! j) = {}) \<and>
         (\<forall>it\<in>set (indices s). \<forall>k. cell_of (grid env s) c it = Some k \<longrightarrow>
            ((\<exists>cl\<in>set (pc_vector r). points c ! nat it \<in> set cl) \<longleftrightarrow>
             unat (min_points_per_voxel s) \<le>
               length (filter (\<lambda>it'. cell_of (grid env s) c it' = Some k) (indices s))))"
proof -
  from applyPartition_Inr [OF ret inp pr srt] obtain unsorted
    where fp: "first_pass (grid env s) c = Inr (unsorted, diagnostics r)"
      and pc: "pc_vector r = map (map (point_of c))
        (surviving_runs (min_points_per_voxel s) (std_sort env unsorted))"
    by blast
  let ?G = "surviving_runs (min_points_per_voxel s) (std_sort env unsorted)"
  have one: "set (pc_vector r ! i) \<inter> set (pc_vector r ! j) = {}"
    if "i < j" and "j < length (pc_vector r)" for i j
  proof -
    from that have j: "j < length ?G" and i: "i < length ?G" by (simp_all add: pc)
    from clusters_disjoint [OF fp srt that(1) j] i j show ?thesis by (simp add: pc)
  qed
  have two: "(\<exists>cl\<in>set (pc_vector r). points c ! nat it \<in> set cl) \<longleftrightarrow>
      unat (min_points_per_voxel s) \<le>
        length (filter (\<lambda>it'. cell_of (grid env s) c it' = Some k) (indices s))"
    if "it \<in> set (indices s)" and "cell_of (grid env s) c it = Some k" for it k
    using in_cluster_iff [OF fp srt _ that(2), of "min_points_per_voxel s"] that(1)
    by (simp add: pc)
  from one two show ?thesis by blast
qed

theorem admitted_point_in_one_cluster_iff_cell_occupied_witness:
  "\<exists>r. applyPartition three_point_env pair_filter = Inr r \<and>
       input pair_filter = Some three_point_cloud \<and>
       proceeds three_point_env pair_filter \<and> is_std_sort (std_sort three_point_env) \<and>
       (\<exists>cl\<in>set (pc_vector r). xyz (21/4) (21/4) (21/4) \<in> set cl) \<and>
       \<not> (\<exists>cl\<in>set (pc_vector r). xyz (1/4) (1/4) (1/4) \<in> set cl)"
proof -
  from pair_run obtain r where r: "applyPartition three_point_env pair_filter = Inr r" by blast
  note t = admitted_point_in_one_cluster_iff_cell_occupied
    [OF r pair_filter_fields(1) pair_proceeds pair_filter_fields(5), THEN conjunct2, rule_format]
  have i: "1 \<in> set (indices pair_filter)" "0 \<in> set (indices pair_filter)"
    by (simp_all add: pair_filter_fields)
  have cnt1: "length (filter (\<lambda>it'. cell_of (grid three_point_env pair_filter)
      three_point_cloud it' = Some 215) (indices pair_filter)) = 2"
    by (simp add: pair_filter_fields pair_cells)
  have cnt0: "length (filter (\<lambda>it'. cell_of (grid three_point_env pair_filter)
      three_point_cloud it' = Some 0) (indices pair_filter)) = 1"
    by (simp add: pair_filter_fields pair_cells)
  have p1: "points three_point_cloud ! nat 1 = xyz (21/4) (21/4) (21/4)"
    and p0: "points three_point_cloud ! nat 0 = xyz (1/4) (1/4) (1/4)"
    by (simp_all add: three_point_cloud_def cloud_of_def)
  have a: "\<exists>cl\<in>set (pc_vector r). xyz (21/4) (21/4) (21/4) \<in> set cl"
    using t [OF i(1) pair_cells(2)] unfolding cnt1 p1 pair_filter_fields(4) by simp
  have b: "\<not> (\<exists>cl\<in>set (pc_vector r). xyz (1/4) (1/4) (1/4) \<in> set cl)"
    using t [OF i(2) pair_cells(1)] unfolding cnt0 p0 pair_filter_fields(4) by simp
  from r a b pair_filter_fields(1,5) pair_proceeds show ?thesis by blast
qed

lemma reversed_fields:
  "input reversed_filter = Some reversed_cloud"
  "indices reversed_filter = [0, 1]"
  "\<not> save_leaf_layout reversed_filter"
  "min_points_per_voxel reversed_filter = 0"
  "is_std_sort (std_sort unit_env)"
  by (simp_all add: reversed_filter_def filter_for_def unit_env_def is_std_sort_sort_key)

lemma reversed_proceeds: "proceeds unit_env reversed_filter"
  by (simp add: unit_env_def reversed_filter_def check_eval)

lemma reversed_first_pass:
  "first_pass (grid unit_env reversed_filter) reversed_cloud =
   Inr ([\<lparr>idx = 7, cloud_point_index = 0\<rparr>, \<lparr>idx = 0, cloud_point_index = 1\<rparr>], [])"
  by (simp add: unit_env_def reversed_filter_def reversed_cloud_def grid_eval first_pass_eval)

lemma reversed_run:
  "\<exists>r. applyPartition unit_env reversed_filter = Inr r \<and>
       pc_vector r = [[xyz 0 0 0], [xyz 1 1 1]]"
  unfolding applyPartition_run [OF reversed_fields(5) reversed_fields(1) reversed_proceeds
      reversed_first_pass reversed_fields(3)]
  by (simp add: reversed_fields unit_env_def surviving_runs_def point_of_def
      reversed_cloud_def cloud_of_def)

text \<open>
  Claim C7. When the call returns past the overflow check: the linear cell indices of the
  output clusters are strictly ascending (as unsigned numbers); every cluster is not empty
  and all its points have the cell index of its first point; and the clusters are, in the
  order of the runs that the third pass delimits in the sorted vector, the source points
  that the entries of each run refer to, in the order of the entries in the run.
\<close>

theorem clusters_ascending_and_verbatim:
  assumes ret: "applyPartition env s = Inr r" and inp: "input s = Some c"
    and pr: "proceeds env s" and srt: "is_std_sort (std_sort env)"
  shows "sorted_wrt (<) (map (\<lambda>cl. leaf_idx (grid env s) (hd cl)) (pc_vector r)) \<and>
         (\<forall>cl\<in>set (pc_vector r). cl \<noteq> [] \<and>
            (\<forall>p\<in>set cl. leaf_idx (grid env s) p = leaf_idx (grid env s) (hd cl))) \<and>
         (\<exists>unsorted d. first_pass (grid env s) c = Inr (unsorted, d) \<and>
            pc_vector r =
              map (\<lambda>fl. map (\<lambda>e. points c ! nat (cloud_point_index e))
                     (run_entries (std_sort env unsorted) fl))
                (snd (third_pass (std_sort env unsorted) (min_points_per_voxel s) 0 0 [])))"
proof -
  from applyPartition_Inr [OF ret inp pr srt] obtain unsorted
    where fp: "first_pass (grid env s) c = Inr (unsorted, diagnostics r)"
      and pc: "pc_vector r = map (map (point_of c))
        (surviving_runs (min_points_per_voxel s) (std_sort env unsorted))"
    by blast
  let ?g = "grid env s"
  let ?iv = "std_sort env unsorted"
  let ?G = "surviving_runs (min_points_per_voxel s) ?iv"
  note s = is_std_sortD [OF srt, of unsorted]
  have cell: "leaf_idx ?g (point_of c e) = idx (hd run)" if "run \<in> set ?G" and "e \<in> set run"
    for run e
    using run_cell [OF fp srt that] .
  have ne: "run \<noteq> []" if "run \<in> set ?G" for run
    using surviving_runsD(1) [OF s(1) that] .
  have key: "leaf_idx ?g (hd (map (point_of c) run)) = idx (hd run)" if "run \<in> set ?G" for run
  proof -
    from ne [OF that] have "hd (map (point_of c) run) = point_of c (hd run)"
      by (simp add: hd_map)
    moreover from ne [OF that] have "hd run \<in> set run" by simp
    ultimately show ?thesis using cell [OF that] by simp
  qed
  have "map (\<lambda>cl. leaf_idx ?g (hd cl)) (pc_vector r) = map (\<lambda>run. idx (hd run)) ?G"
    unfolding pc using key by (simp add: comp_def)
  moreover have "sorted_wrt (<) (map (\<lambda>run. idx (hd run)) ?G)"
    using s(1) by (rule surviving_runs_keys_ascending)
  ultimately have one: "sorted_wrt (<) (map (\<lambda>cl. leaf_idx ?g (hd cl)) (pc_vector r))"
    by simp
  have two: "cl \<noteq> [] \<and> (\<forall>p\<in>set cl. leaf_idx ?g p = leaf_idx ?g (hd cl))"
    if "cl \<in> set (pc_vector r)" for cl
  proof -
    from that obtain run where run: "run \<in> set ?G" and cl: "cl = map (point_of c) run"
      by (auto simp: pc)
    from ne [OF run] have "cl \<noteq> []" by (simp add: cl)
    moreover have "leaf_idx ?g p = leaf_idx ?g (hd cl)" if "p \<in> set cl" for p
    proof -
      from that obtain e where "e \<in> set run" and "p = point_of c e" by (auto simp: cl)
      with cell [OF run] key [OF run] show ?thesis by (simp add: cl)
    qed
    ultimately show ?thesis by blast
  qed
  have "map (run_entries ?iv) (snd (third_pass ?iv (min_points_per_voxel s) 0 0 [])) = ?G"
    using third_pass_runs [of 0 ?iv "min_points_per_voxel s" 0 "[]"]
    by (simp add: surviving_runs_def)
  then have "pc_vector r =
      map (map (point_of c)) (map (run_entries ?iv)
        (snd (third_pass ?iv (min_points_per_voxel s) 0 0 [])))"
    by (simp only: pc)
  then have three: "pc_vector r =
      map (\<lambda>fl. map (\<lambda>e. points c ! nat (cloud_point_index e)) (run_entries ?iv fl))
        (snd (third_pass ?iv (min_points_per_voxel s) 0 0 []))"
    by (simp add: comp_def point_of_def [abs_def])
  from one two three fp show ?thesis by blast
qed

theorem clusters_ascending_and_verbatim_witness:
  "\<exists>r. applyPartition unit_env reversed_filter = Inr r \<and>
       input reversed_filter = Some reversed_cloud \<and>
       proceeds unit_env reversed_filter \<and> is_std_sort (std_sort unit_env) \<and>
       points reversed_cloud = [xyz 1 1 1, xyz 0 0 0] \<and>
       pc_vector r = [[xyz 0 0 0], [xyz 1 1 1]] \<and>
       sorted_wrt (<) (map (\<lambda>cl. leaf_idx (grid unit_env reversed_filter) (hd cl)) (pc_vector r))"
proof -
  from reversed_run obtain r where r: "applyPartition unit_env reversed_filter = Inr r"
    and pv: "pc_vector r = [[xyz 0 0 0], [xyz 1 1 1]]"
    by blast
  from clusters_ascending_and_verbatim [OF r reversed_fields(1) reversed_proceeds
      reversed_fields(5)]
  have "sorted_wrt (<) (map (\<lambda>cl. leaf_idx (grid unit_env reversed_filter) (hd cl)) (pc_vector r))"
    by blast
  moreover have "points reversed_cloud = [xyz 1 1 1, xyz 0 0 0]"
    by (simp add: reversed_cloud_def cloud_of_def)
  ultimately show ?thesis
    using r pv reversed_fields(1,5) reversed_proceeds by blast
qed

lemma nan_fields:
  "input nan_filter = Some nan_cloud"
  "indices nan_filter = [0, 1]"
  "\<not> save_leaf_layout nan_filter"
  "min_points_per_voxel nan_filter = 0"
  "filter_field_name nan_filter = []"
  "is_std_sort (std_sort origin_env)"
  "is_dense nan_cloud"
  by (simp_all add: nan_filter_def filter_for_def origin_env_def is_std_sort_sort_key
      nan_cloud_def cloud_of_def)

lemma nan_proceeds: "proceeds origin_env nan_filter"
  by (simp add: origin_env_def nan_filter_def check_eval)

lemma nan_first_pass:
  "first_pass (grid origin_env nan_filter) nan_cloud =
   Inr ([\<lparr>idx = 0, cloud_point_index = 0\<rparr>, \<lparr>idx = 2147483648, cloud_point_index = 1\<rparr>], [])"
  by (simp add: origin_env_def nan_filter_def nan_cloud_def nan_point_def grid_eval
      first_pass_eval)

lemma nan_run: "\<exists>r. applyPartition origin_env nan_filter = Inr r"
  unfolding applyPartition_run [OF nan_fields(6) nan_fields(1) nan_proceeds nan_first_pass
      nan_fields(3)]
  by simp

lemma cut_out_grid [simp]: "cut_out (grid env s) = cut_out s"
  by (rule ext) (simp add: cut_out_def grid_def set_grid_def Let_def)

text \<open>
  Claim C10. In a dense cloud the finiteness test is not made: for a call that returns past
  the overflow check, every candidate whose index is in the cloud and whose point the
  admission filter keeps, finite or not, gets the cell index that the arithmetic gives its
  point, and with a minimum of at most one point per voxel its point is in an output
  cluster.
\<close>

theorem dense_cloud_skips_finiteness_check:
  assumes ret: "applyPartition env s = Inr r" and inp: "input s = Some c"
    and pr: "proceeds env s" and srt: "is_std_sort (std_sort env)"
    and dense: "is_dense c"
    and it: "it \<in> set (indices s)" and p: "point_at c it = Inr p"
    and pf: "passes_filter s c p"
    and mp: "unat (min_points_per_voxel s) \<le> 1"
  shows "skip_invalid c it = Inr False \<and>
         cell_of (grid env s) c it = Some (leaf_idx (grid env s) p) \<and>
         (\<exists>cl\<in>set (pc_vector r). p \<in> set cl)"
proof -
  let ?g = "grid env s"
  from dense have sk: "skip_invalid c it = Inr False"
    by (simp add: skip_invalid_def)
  have cell: "cell_of ?g c it = Some (leaf_idx ?g p)"
  proof (cases "filter_field_name s = []")
    case True
    with p sk show ?thesis by (simp add: cell_of_def assign_def plain_body_def)
  next
    case False
    with pf obtain off v
      where "field_offset c (getFieldIndex c (filter_field_name s)) = Inr off"
        and "read_field p off = Inr v" and "\<not> cut_out s v"
      by (auto simp: passes_filter_def split: sum.splits)
    with False p sk show ?thesis by (simp add: cell_of_def assign_def filtered_body_def)
  qed
  from applyPartition_Inr [OF ret inp pr srt] obtain unsorted
    where fp: "first_pass ?g c = Inr (unsorted, diagnostics r)"
      and pc: "pc_vector r = map (map (point_of c))
        (surviving_runs (min_points_per_voxel s) (std_sort env unsorted))"
    by blast
  from it cell have "it \<in> set (filter (\<lambda>it'. cell_of ?g c it' = Some (leaf_idx ?g p)) (indices s))"
    by simp
  then have "filter (\<lambda>it'. cell_of ?g c it' = Some (leaf_idx ?g p)) (indices s) \<noteq> []"
    by (metis empty_iff empty_set)
  then have "1 \<le> length (filter (\<lambda>it'. cell_of ?g c it' = Some (leaf_idx ?g p)) (indices s))"
    by (simp add: Suc_le_eq)
  with mp have "unat (min_points_per_voxel s) \<le>
      length (filter (\<lambda>it'. cell_of ?g c it' = Some (leaf_idx ?g p)) (indices s))"
    by simp
  with in_cluster_iff [OF fp srt _ cell, of "min_points_per_voxel s"] it
  have "\<exists>cl\<in>set (pc_vector r). points c ! nat it \<in> set cl"
    by (simp add: pc)
  moreover from p have "points c ! nat it = p" by (simp add: point_at_Inr)
  ultimately show ?thesis using sk cell by simp
qed

theorem dense_cloud_skips_finiteness_check_witness:
  "\<exists>r. applyPartition origin_env nan_filter = Inr r \<and>
       input nan_filter = Some nan_cloud \<and> proceeds origin_env nan_filter \<and>
       is_std_sort (std_sort origin_env) \<and> is_dense nan_cloud \<and>
       1 \<in> set (indices nan_filter) \<and>
       point_at nan_cloud 1 = Inr nan_point \<and> passes_filter nan_filter nan_cloud nan_point \<and>
       unat (min_points_per_voxel nan_filter) \<le> 1 \<and>
       invalid_point nan_point \<and>
       cell_of (grid origin_env nan_filter) nan_cloud 1 =
         Some (leaf_idx (grid origin_env nan_filter) nan_point) \<and>
       (\<exists>cl\<in>set (pc_vector r). nan_point \<in> set cl)"
proof -
  from nan_run obtain r where r: "applyPartition origin_env nan_filter = Inr r" by blast
  have it: "1 \<in> set (indices nan_filter)" by (simp add: nan_fields)
  have p: "point_at nan_cloud 1 = Inr nan_point"
    by (simp add: point_at_def nan_cloud_def cloud_of_def)
  have pf: "passes_filter nan_filter nan_cloud nan_point"
    by (simp add: passes_filter_def nan_fields)
  have mp: "unat (min_points_per_voxel nan_filter) \<le> 1" by (simp add: nan_fields)
  have inv: "invalid_point nan_point" by (simp add: invalid_point_def nan_point_def)
  from dense_cloud_skips_finiteness_check [OF r nan_fields(1) nan_proceeds nan_fields(6)
      nan_fields(7) it p pf mp]
  show ?thesis
    using r nan_fields(1,6,7) nan_proceeds it p pf mp inv by blast
qed

lemma std_sort_Nil: "is_std_sort srt \<Longrightarrow> srt [] = []"
  using is_std_sortD(2) [of srt "[]"] by simp

text \<open>
  Claim C6. With no input cloud the call returns the empty cluster list and the diagnostic,
  and leaves the object as it was. With an input cloud, when the first pass ends without an
  error and with no entry (every candidate was passed over), the call returns an empty
  cluster list, provided the leaf layout, if it is recorded, can be allocated.
\<close>

theorem empty_result_without_input_or_candidates:
  assumes srt: "is_std_sort (std_sort env)"
  shows "(input s = None \<longrightarrow>
            applyPartition env s =
              Inr \<lparr>self = s, pc_vector = [], diagnostics = [NoInputDataset]\<rparr>) \<and>
         (\<forall>c d. input s = Some c \<and> first_pass (grid env s) c = Inr ([], d) \<and>
              (save_leaf_layout s \<longrightarrow>
                 unat (v0 (div_b (grid env s)) * v1 (div_b (grid env s)) * v2 (div_b (grid env s)))
                   \<le> max_layout_size env) \<longrightarrow>
            (\<exists>r. applyPartition env s = Inr r \<and> pc_vector r = []))"
proof -
  have one: "applyPartition env s = Inr \<lparr>self = s, pc_vector = [], diagnostics = [NoInputDataset]\<rparr>"
    if "input s = None"
    using that by (simp add: applyPartition_def)
  have two: "\<exists>r. applyPartition env s = Inr r \<and> pc_vector r = []"
    if inp: "input s = Some c" and fp: "first_pass (grid env s) c = Inr ([], d)"
      and al: "save_leaf_layout s \<longrightarrow>
        unat (v0 (div_b (grid env s)) * v1 (div_b (grid env s)) * v2 (div_b (grid env s)))
          \<le> max_layout_size env"
    for c d
  proof (cases "proceeds env s")
    case False
    with inp show ?thesis by (simp add: applyPartition_def proceeds_def Let_def)
  next
    case True
    let ?g = "grid env s"
    have e: "surviving_runs (min_points_per_voxel ?g) (std_sort env []) = []"
      by (simp add: std_sort_Nil [OF srt] surviving_runs_def)
    note eq = partition_cells_eq [OF srt fp, unfolded e]
    show ?thesis
    proof (cases "save_leaf_layout s")
      case False
      with eq show ?thesis by (simp add: applyPartition_proceeds [OF inp True])
    next
      case sv: True
      with al obtain layout where "reinit_layout env ?g = Inr layout"
        by (auto simp: reinit_layout_def Let_def)
      with eq sv show ?thesis by (simp add: applyPartition_proceeds [OF inp True])
    qed
  qed
  from one two show ?thesis by blast
qed

theorem empty_result_without_input_or_candidates_witness:
  "is_std_sort (std_sort origin_env) \<and> input no_input_filter = None \<and>
   applyPartition origin_env no_input_filter =
     Inr \<lparr>self = no_input_filter, pc_vector = [], diagnostics = [NoInputDataset]\<rparr> \<and>
   input lone_nan_filter = Some lone_nan_cloud \<and>
   first_pass (grid origin_env lone_nan_filter) lone_nan_cloud = Inr ([], []) \<and>
   \<not> save_leaf_layout lone_nan_filter \<and>
   (\<exists>r. applyPartition origin_env lone_nan_filter = Inr r \<and> pc_vector r = [])"
proof -
  have srt: "is_std_sort (std_sort origin_env)"
    by (simp add: origin_env_def is_std_sort_sort_key)
  have n: "input no_input_filter = None"
    by (simp add: no_input_filter_def)
  have inp: "input lone_nan_filter = Some lone_nan_cloud"
    and ns: "\<not> save_leaf_layout lone_nan_filter"
    by (simp_all add: lone_nan_filter_def filter_for_def)
  have fp: "first_pass (grid origin_env lone_nan_filter) lone_nan_cloud = Inr ([], [])"
    by (simp add: origin_env_def lone_nan_filter_def lone_nan_cloud_def nan_point_def grid_eval
        first_pass_eval)
  note t = empty_result_without_input_or_candidates [OF srt]
  from t [of no_input_filter] n
  have a: "applyPartition origin_env no_input_filter =
     Inr \<lparr>self = no_input_filter, pc_vector = [], diagnostics = [NoInputDataset]\<rparr>"
    by blast
  from t [of lone_nan_filter] inp fp ns
  have b: "\<exists>r. applyPartition origin_env lone_nan_filter = Inr r \<and> pc_vector r = []"
    by blast
  from srt n a inp fp ns b show ?thesis by blast
qed

lemma cluster_key:
  assumes fp: "first_pass g c = Inr (unsorted, d)" and srt: "is_std_sort srt"
    and run: "run \<in> set (surviving_runs mp (srt unsorted))"
  shows "leaf_idx g (hd (map (point_of c) run)) = idx (hd run)"
proof -
  from surviving_runsD(1) [OF is_std_sortD(1) [OF srt] run] have ne: "run \<noteq> []" .
  then have "hd (map (point_of c) run) = point_of c (hd run)" by (simp add: hd_map)
  moreover from ne have "hd run \<in> set run" by simp
  ultimately show ?thesis using run_cell [OF fp srt run] by simp
qed

lemma length_admitted_entries: "length (admitted_entries body its) \<le> length its"
  by (simp add: admitted_entries_def map_filter_def)

lemma length_surviving_runs:
  assumes fp: "first_pass g c = Inr (unsorted, d)" and srt: "is_std_sort srt"
  shows "length (surviving_runs mp (srt unsorted)) \<le> length (indices g)"
proof -
  have "length (surviving_runs mp (srt unsorted)) \<le> length (groups idx (srt unsorted))"
    by (simp add: surviving_runs_def)
  also have "\<dots> \<le> length (srt unsorted)" by (rule length_groups_le)
  also have "\<dots> = length unsorted"
    using is_std_sortD(2) [OF srt, of unsorted] by (rule mset_eq_length)
  also from fp have "\<dots> \<le> length (indices g)"
    by (simp add: first_pass_eq length_admitted_entries)
  finally show ?thesis .
qed

text \<open>
  Consistency of the leaf layout. When it is recorded and the call returns past the
  overflow check:
  the table has as many entries as the 32-bit product of the three division counts (which
  is their product whenever that fits 32 bits); every entry is -1 or the position of an
  output cluster, namely the cluster of the cell that the entry stands for, so nothing is
  left of an earlier table; and for every point of the cluster at position \<open>p\<close> the entry
  at the linear cell index of the point is \<open>p\<close>.
\<close>

theorem leaf_layout_consistent:
  assumes ret: "applyPartition env s = Inr r" and inp: "input s = Some c"
    and pr: "proceeds env s" and srt: "is_std_sort (std_sort env)"
    and sv: "save_leaf_layout s"
    and old: "length (leaf_layout s) < 2 ^ 32" and cand: "length (indices s) < 2 ^ 31"
  shows "length (leaf_layout (self r)) =
           unat (v0 (div_b (self r)) * v1 (div_b (self r)) * v2 (div_b (self r))) \<and>
         (0 \<le> sint (v0 (div_b (self r))) * sint (v1 (div_b (self r))) * sint (v2 (div_b (self r))) \<and>
          sint (v0 (div_b (self r))) * sint (v1 (div_b (self r))) * sint (v2 (div_b (self r))) < 2 ^ 32
          \<longrightarrow> int (length (leaf_layout (self r))) =
            sint (v0 (div_b (self r))) * sint (v1 (div_b (self r))) * sint (v2 (div_b (self r)))) \<and>
         (\<forall>j<length (leaf_layout (self r)).
            leaf_layout (self r) ! j = - 1 \<or>
            (\<exists>p<length (pc_vector r). sint (leaf_layout (self r) ! j) = int p \<and>
               j = unat (leaf_idx (grid env s) (hd (pc_vector r ! p))))) \<and>
         (\<forall>p<length (pc_vector r). \<forall>pt\<in>set (pc_vector r ! p).
            unat (leaf_idx (grid env s) pt) < length (leaf_layout (self r)) \<and>
            sint (leaf_layout (self r) ! unat (leaf_idx (grid env s) pt)) = int p)"
proof -
  let ?g = "grid env s"
  let ?n = "unat (v0 (div_b ?g) * v1 (div_b ?g) * v2 (div_b ?g))"
  from applyPartition_Inr [OF ret inp pr srt] sv obtain unsorted layout
    where fp: "first_pass ?g c = Inr (unsorted, diagnostics r)"
      and pc: "pc_vector r = map (map (point_of c))
        (surviving_runs (min_points_per_voxel s) (std_sort env unsorted))"
      and rl: "reinit_layout env ?g = Inr layout"
      and rng: "\<forall>k\<in>set (map (\<lambda>run. idx (hd run))
          (surviving_runs (min_points_per_voxel s) (std_sort env unsorted))). unat k < length layout"
      and sf: "self r = ?g\<lparr>leaf_layout := record_cells (map (\<lambda>run. idx (hd run))
          (surviving_runs (min_points_per_voxel s) (std_sort env unsorted))) 0 layout\<rparr>"
    by auto
  let ?G = "surviving_runs (min_points_per_voxel s) (std_sort env unsorted)"
  let ?keys = "map (\<lambda>run. idx (hd run)) ?G"
  let ?L = "record_cells ?keys 0 layout"
  from old have "length (leaf_layout ?g) < 2 ^ 32" by simp
  from reinit_layout_eq [OF this, of env] rl have lay: "layout = replicate ?n (- 1)"
    by (simp split: if_splits)
  have L: "leaf_layout (self r) = ?L" and dv: "div_b (self r) = div_b ?g"
    by (simp_all add: sf)
  have len: "length ?L = ?n" by (simp add: lay)
  have lG: "length ?G < 2 ^ 31"
    using length_surviving_runs [OF fp srt, of "min_points_per_voxel s"] cand by simp
  have lpc: "length (pc_vector r) = length ?G" by (simp add: pc)
  have "sorted (map idx (std_sort env unsorted))"
    by (rule is_std_sortD(1) [OF srt])
  then have "sorted_wrt (<) ?keys"
    by (rule surviving_runs_keys_ascending)
  then have dist: "distinct ?keys"
    by (simp add: strict_sorted_iff)
  have key: "leaf_idx ?g (hd (pc_vector r ! p)) = ?keys ! p" if "p < length ?G" for p
    using cluster_key [OF fp srt, of "?G ! p" "min_points_per_voxel s"] that
    by (simp add: pc)
  have sp: "sint (word_of_nat p :: 32 word) = int p" if "p < length ?G" for p
    using that lG by (intro sint_word_of_nat_32) simp
  have one: "length (leaf_layout (self r)) =
      unat (v0 (div_b (self r)) * v1 (div_b (self r)) * v2 (div_b (self r)))"
    by (simp only: L dv len)
  have two: "int (length (leaf_layout (self r))) =
      sint (v0 (div_b (self r))) * sint (v1 (div_b (self r))) * sint (v2 (div_b (self r)))"
    if "0 \<le> sint (v0 (div_b (self r))) * sint (v1 (div_b (self r))) * sint (v2 (div_b (self r)))"
      and "sint (v0 (div_b (self r))) * sint (v1 (div_b (self r))) * sint (v2 (div_b (self r))) < 2 ^ 32"
    unfolding one using that by (rule unat_prod_sint)
  have three: "leaf_layout (self r) ! j = - 1 \<or>
      (\<exists>p<length (pc_vector r). sint (leaf_layout (self r) ! j) = int p \<and>
         j = unat (leaf_idx ?g (hd (pc_vector r ! p))))"
    if "j < length (leaf_layout (self r))" for j
  proof -
    from that have j: "j < length layout" by (simp add: L)
    from record_cells_cases [OF j, of ?keys 0]
    show ?thesis
    proof
      assume "?L ! j = layout ! j"
      with j have "?L ! j = - 1" by (simp add: lay)
      then show ?thesis by (simp add: L)
    next
      assume "\<exists>n<length ?keys. j = unat (?keys ! n) \<and> ?L ! j = word_of_nat (0 + n)"
      then obtain n where n: "n < length ?G" and jn: "j = unat (?keys ! n)"
        and v: "?L ! j = word_of_nat n"
        by auto
      from n v sp [OF n] key [OF n] jn lpc
      have "n < length (pc_vector r) \<and> sint (leaf_layout (self r) ! j) = int n \<and>
          j = unat (leaf_idx ?g (hd (pc_vector r ! n)))"
        by (simp add: L)
      then show ?thesis by blast
    qed
  qed
  have four: "unat (leaf_idx ?g pt) < length (leaf_layout (self r)) \<and>
      sint (leaf_layout (self r) ! unat (leaf_idx ?g pt)) = int p"
    if p: "p < length (pc_vector r)" and pt: "pt \<in> set (pc_vector r ! p)" for p pt
  proof -
    from p have pG: "p < length ?G" by (simp add: lpc)
    then have run: "?G ! p \<in> set ?G" by simp
    from pt pG obtain e where e: "e \<in> set (?G ! p)" and pe: "pt = point_of c e"
      by (auto simp: pc)
    from run_cell [OF fp srt run e] pe pG have k: "leaf_idx ?g pt = ?keys ! p" by simp
    from pG have "?keys ! p \<in> set ?keys" by (metis length_map nth_mem)
    with rng have r1: "unat (?keys ! p) < length layout" by blast
    from pG have "p < length ?keys" by simp
    from record_cells_nth [OF dist rng this, of 0]
    have "?L ! unat (?keys ! p) = word_of_nat p" by simp
    with sp [OF pG] r1 k show ?thesis by (simp add: L)
  qed
  from one two three four show ?thesis by blast
qed

lemma applyPartition_run_layout:
  assumes srt: "is_std_sort (std_sort env)" and inp: "input s = Some c"
    and pr: "proceeds env s" and fp: "first_pass (grid env s) c = Inr (unsorted, d)"
    and sv: "save_leaf_layout s" and old: "length (leaf_layout s) < 2 ^ 32"
    and al: "unat (v0 (div_b (grid env s)) * v1 (div_b (grid env s)) * v2 (div_b (grid env s)))
        \<le> max_layout_size env"
    and rng: "\<forall>k\<in>set (map (\<lambda>run. idx (hd run))
        (surviving_runs (min_points_per_voxel s) (std_sort env unsorted))).
        unat k < unat (v0 (div_b (grid env s)) * v1 (div_b (grid env s)) * v2 (div_b (grid env s)))"
  shows "applyPartition env s =
     Inr \<lparr>self = (grid env s)\<lparr>leaf_layout :=
            record_cells (map (\<lambda>run. idx (hd run))
                (surviving_runs (min_points_per_voxel s) (std_sort env unsorted))) 0
              (replicate
                (unat (v0 (div_b (grid env s)) * v1 (div_b (grid env s)) * v2 (div_b (grid env s))))
                (- 1))\<rparr>,
          pc_vector = map (map (point_of c))
            (surviving_runs (min_points_per_voxel s) (std_sort env unsorted)),
          diagnostics = d\<rparr>"
proof -
  from old have "length (leaf_layout (grid env s)) < 2 ^ 32" by simp
  from reinit_layout_eq [OF this, of env] al
  have "reinit_layout env (grid env s) =
      Inr (replicate
        (unat (v0 (div_b (grid env s)) * v1 (div_b (grid env s)) * v2 (div_b (grid env s))))
        (- 1))"
    by simp
  with partition_cells_eq [OF srt fp] sv rng show ?thesis
    by (simp add: applyPartition_proceeds [OF inp pr])
qed

lemma layout_filter_fields:
  "input layout_filter = Some three_point_cloud"
  "indices layout_filter = [0, 1, 2]"
  "save_leaf_layout layout_filter"
  "leaf_layout layout_filter = []"
  "min_points_per_voxel layout_filter = 2"
  by (simp_all add: layout_filter_def pair_filter_def filter_for_def)

lemma layout_grid: "grid three_point_env layout_filter =
    (grid three_point_env pair_filter)\<lparr>save_leaf_layout := True\<rparr>"
  by (simp add: layout_filter_def grid_def set_grid_def Let_def)

lemma layout_proceeds: "proceeds three_point_env layout_filter"
  using pair_proceeds by (simp add: proceeds_def layout_filter_def leaf_size_too_small_def)

lemma layout_first_pass:
  "first_pass (grid three_point_env layout_filter) three_point_cloud =
   Inr ([\<lparr>idx = 0, cloud_point_index = 0\<rparr>, \<lparr>idx = 215, cloud_point_index = 1\<rparr>,
         \<lparr>idx = 215, cloud_point_index = 2\<rparr>], [])"
  by (simp add: three_point_env_def layout_filter_def pair_filter_def three_point_cloud_def
      grid_eval first_pass_eval)

lemma layout_div_b: "div_b (grid three_point_env layout_filter) = (6, 6, 6)"
  by (simp add: three_point_env_def layout_filter_def pair_filter_def grid_eval)

lemma layout_cell:
  "leaf_idx (grid three_point_env layout_filter) (xyz (21/4) (21/4) (21/4)) = 215"
  by (simp add: three_point_env_def layout_filter_def pair_filter_def grid_eval first_pass_eval)

lemma layout_run:
  "\<exists>r. applyPartition three_point_env layout_filter = Inr r \<and>
       pc_vector r = [[xyz (21/4) (21/4) (21/4), xyz (11/2) (11/2) (11/2)]] \<and>
       div_b (self r) = (6, 6, 6)"
proof -
  have rng: "\<forall>k\<in>set (map (\<lambda>run. idx (hd run))
        (surviving_runs (min_points_per_voxel layout_filter) (std_sort three_point_env
          [\<lparr>idx = 0, cloud_point_index = 0\<rparr>, \<lparr>idx = 215, cloud_point_index = 1\<rparr>,
           \<lparr>idx = 215, cloud_point_index = 2\<rparr>]))).
        unat k < unat (v0 (div_b (grid three_point_env layout_filter)) *
          v1 (div_b (grid three_point_env layout_filter)) *
          v2 (div_b (grid three_point_env layout_filter)))"
    unfolding layout_div_b
    by (simp add: layout_filter_fields three_point_env_def surviving_runs_def)
  have al: "unat (v0 (div_b (grid three_point_env layout_filter)) *
          v1 (div_b (grid three_point_env layout_filter)) *
          v2 (div_b (grid three_point_env layout_filter))) \<le> max_layout_size three_point_env"
    unfolding layout_div_b by (simp add: three_point_env_def)
  have old: "length (leaf_layout layout_filter) < 2 ^ 32"
    by (simp add: layout_filter_fields)
  have pv: "map (map (point_of three_point_cloud))
      (surviving_runs (min_points_per_voxel layout_filter) (std_sort three_point_env
          [\<lparr>idx = 0, cloud_point_index = 0\<rparr>, \<lparr>idx = 215, cloud_point_index = 1\<rparr>,
           \<lparr>idx = 215, cloud_point_index = 2\<rparr>])) =
      [[xyz (21/4) (21/4) (21/4), xyz (11/2) (11/2) (11/2)]]"
    by (simp add: layout_filter_fields three_point_env_def surviving_runs_def
        point_of_def three_point_cloud_def cloud_of_def)
  show ?thesis
    unfolding applyPartition_run_layout [OF pair_filter_fields(5) layout_filter_fields(1)
        layout_proceeds layout_first_pass layout_filter_fields(3) old al rng]
    by (simp add: pv layout_div_b)
qed

theorem leaf_layout_consistent_witness:
  "\<exists>r. applyPartition three_point_env layout_filter = Inr r \<and>
       input layout_filter = Some three_point_cloud \<and>
       proceeds three_point_env layout_filter \<and> is_std_sort (std_sort three_point_env) \<and>
       save_leaf_layout layout_filter \<and> length (leaf_layout layout_filter) < 2 ^ 32 \<and>
       length (indices layout_filter) < 2 ^ 31 \<and>
       pc_vector r = [[xyz (21/4) (21/4) (21/4), xyz (11/2) (11/2) (11/2)]] \<and>
       length (leaf_layout (self r)) = 216 \<and>
       sint (leaf_layout (self r) ! 215) = 0"
proof -
  from layout_run obtain r where r: "applyPartition three_point_env layout_filter = Inr r"
    and pv: "pc_vector r = [[xyz (21/4) (21/4) (21/4), xyz (11/2) (11/2) (11/2)]]"
    and dv: "div_b (self r) = (6, 6, 6)"
    by blast
  have old: "length (leaf_layout layout_filter) < 2 ^ 32"
    and cand: "length (indices layout_filter) < 2 ^ 31"
    by (simp_all add: layout_filter_fields)
  note t = leaf_layout_consistent [OF r layout_filter_fields(1) layout_proceeds
      pair_filter_fields(5) layout_filter_fields(3) old cand]
  from t have "length (leaf_layout (self r)) =
      unat (v0 (div_b (self r)) * v1 (div_b (self r)) * v2 (div_b (self r)))"
    by blast
  then have a: "length (leaf_layout (self r)) = 216" by (simp add: dv)
  from t have "\<forall>p<length (pc_vector r). \<forall>pt\<in>set (pc_vector r ! p).
      unat (leaf_idx (grid three_point_env layout_filter) pt) < length (leaf_layout (self r)) \<and>
      sint (leaf_layout (self r) ! unat (leaf_idx (grid three_point_env layout_filter) pt)) = int p"
    by blast
  then have "sint (leaf_layout (self r) !
      unat (leaf_idx (grid three_point_env layout_filter) (xyz (21/4) (21/4) (21/4)))) = int 0"
    unfolding pv by simp
  then have b: "sint (leaf_layout (self r) ! 215) = 0"
    unfolding layout_cell by simp
  from r pv a b old cand layout_filter_fields(1,3) layout_proceeds pair_filter_fields(5)
  show ?thesis by blast
qed

lemma wide_fields:
  "input wide_filter = Some wide_cloud"
  "save_leaf_layout wide_filter"
  "leaf_layout wide_filter = []"
  "min_points_per_voxel wide_filter = 0"
  "is_std_sort (std_sort wide_env)"
  by (simp_all add: wide_filter_def filter_for_def wide_env_def is_std_sort_sort_key)

lemma wide_proceeds: "proceeds wide_env wide_filter"
  by (simp add: wide_env_def wide_filter_def check_eval)

lemma wide_div_b: "div_b (grid wide_env wide_filter) = (2, 2, 1073741825)"
  by (simp add: wide_env_def wide_filter_def grid_eval)

lemma wide_first_pass:
  "first_pass (grid wide_env wide_filter) wide_cloud =
   Inr ([\<lparr>idx = 0, cloud_point_index = 0\<rparr>, \<lparr>idx = 3, cloud_point_index = 1\<rparr>], [])"
  by (simp add: wide_env_def wide_filter_def wide_cloud_def grid_eval first_pass_eval)

text \<open>
  Claim C5. The two points pass the overflow check (1 * 1 * 1073741825 is below
  \<open>2 ^ 31\<close>) and the grid has 2, 2 and 1073741825 divisions. Their product is
  4294967300; the 32-bit product that sizes the table is 4, so the call returns with a table
  of 4 entries.
\<close>

theorem leaf_layout_shorter_than_grid_product:
  "\<exists>r. applyPartition wide_env wide_filter = Inr r \<and> save_leaf_layout wide_filter \<and>
       length (leaf_layout (self r)) = 4 \<and>
       sint (v0 (div_b (self r))) * sint (v1 (div_b (self r))) * sint (v2 (div_b (self r))) =
         4294967300"
proof -
  have rng: "\<forall>k\<in>set (map (\<lambda>run. idx (hd run))
        (surviving_runs (min_points_per_voxel wide_filter) (std_sort wide_env
          [\<lparr>idx = 0, cloud_point_index = 0\<rparr>, \<lparr>idx = 3, cloud_point_index = 1\<rparr>]))).
        unat k < unat (v0 (div_b (grid wide_env wide_filter)) *
          v1 (div_b (grid wide_env wide_filter)) * v2 (div_b (grid wide_env wide_filter)))"
    unfolding wide_div_b by (simp add: wide_fields wide_env_def surviving_runs_def)
  have al: "unat (v0 (div_b (grid wide_env wide_filter)) *
          v1 (div_b (grid wide_env wide_filter)) * v2 (div_b (grid wide_env wide_filter)))
        \<le> max_layout_size wide_env"
    unfolding wide_div_b by (simp add: wide_env_def)
  have old: "length (leaf_layout wide_filter) < 2 ^ 32"
    by (simp add: wide_fields)
  show ?thesis
    unfolding applyPartition_run_layout [OF wide_fields(5) wide_fields(1) wide_proceeds
        wide_first_pass wide_fields(2) old al rng]
    by (simp add: wide_div_b wide_fields(2))
qed

lemma for_indices_filter:
  "\<forall>it. \<not> keep it \<longrightarrow> body it = Inr None \<Longrightarrow>
   for_indices body (filter keep its) acc = for_indices body its acc"
  by (induction its arbitrary: acc) (simp_all split: sum.splits option.splits)

lemma skipped_bodies:
  assumes "skip_invalid c it = Inr True"
  shows "filtered_body g c di it = Inr None" and "plain_body g c it = Inr None"
  using assms by (simp_all add: filtered_body_def plain_body_def)

lemma leaf_idx_indices [simp]: "leaf_idx (g\<lparr>indices := x\<rparr>) = leaf_idx g"
  by (rule ext) (simp add: leaf_idx_def)

lemma cut_out_indices [simp]: "cut_out (g\<lparr>indices := x\<rparr>) = cut_out g"
  by (rule ext) (simp add: cut_out_def)

lemma filtered_body_indices [simp]:
  "filtered_body (g\<lparr>indices := x\<rparr>) c di = filtered_body g c di"
  by (rule ext) (simp add: filtered_body_def cong: if_cong)

lemma plain_body_indices [simp]: "plain_body (g\<lparr>indices := x\<rparr>) c = plain_body g c"
  by (rule ext) (simp add: plain_body_def cong: if_cong)

lemma reinit_layout_indices [simp]: "reinit_layout env (g\<lparr>indices := x\<rparr>) = reinit_layout env g"
  by (simp add: reinit_layout_def Let_def cong: if_cong)

lemma first_pass_skip:
  "first_pass (g\<lparr>indices := filter (\<lambda>it. skip_invalid c it \<noteq> Inr True) (indices g)\<rparr>) c =
   first_pass g c"
  by (simp add: first_pass_def Let_def for_indices_filter skipped_bodies)

lemma partition_cells_skip:
  "partition_cells env (g\<lparr>indices := filter (\<lambda>it. skip_invalid c it \<noteq> Inr True) (indices g)\<rparr>) c =
   map_sum id (\<lambda>r. r\<lparr>self := (self r)\<lparr>indices :=
       filter (\<lambda>it. skip_invalid c it \<noteq> Inr True) (indices g)\<rparr>\<rparr>)
     (partition_cells env g c)"
  by (auto simp: partition_cells_def first_pass_skip Let_def bind_res_def
      split: sum.splits prod.splits)

lemma sparse_fields:
  "input sparse_filter = Some sparse_cloud"
  "\<not> save_leaf_layout sparse_filter"
  "\<not> is_dense sparse_cloud"
  "is_std_sort (std_sort origin_env)"
  by (simp_all add: sparse_filter_def filter_for_def sparse_cloud_def origin_env_def
      is_std_sort_sort_key)

lemma sparse_proceeds: "proceeds origin_env sparse_filter"
  by (simp add: origin_env_def sparse_filter_def check_eval)

lemma sparse_first_pass:
  "first_pass (grid origin_env sparse_filter) sparse_cloud =
   Inr ([\<lparr>idx = 0, cloud_point_index = 0\<rparr>], [])"
  by (simp add: origin_env_def sparse_filter_def sparse_cloud_def nan_cloud_def nan_point_def
      grid_eval first_pass_eval)

lemma sparse_run:
  "\<exists>r. applyPartition origin_env sparse_filter = Inr r \<and> pc_vector r = [[xyz 0 0 0]]"
proof -
  have pv: "map (map (point_of sparse_cloud))
      (surviving_runs (min_points_per_voxel sparse_filter)
        (std_sort origin_env [\<lparr>idx = 0, cloud_point_index = 0\<rparr>])) = [[xyz 0 0 0]]"
    by (simp add: sparse_filter_def filter_for_def origin_env_def surviving_runs_def point_of_def
        sparse_cloud_def nan_cloud_def cloud_of_def)
  show ?thesis
    unfolding applyPartition_run [OF sparse_fields(4) sparse_fields(1) sparse_proceeds
        sparse_first_pass sparse_fields(2)]
    by (simp add: pv)
qed

lemma leaf_size_too_small_indices [simp]:
  "leaf_size_too_small (s\<lparr>indices := x\<rparr>) = leaf_size_too_small s"
  by (rule ext, rule ext) (simp add: leaf_size_too_small_def)

lemma set_grid_indices: "set_grid (s\<lparr>indices := x\<rparr>) a b = (set_grid s a b)\<lparr>indices := x\<rparr>"
  by (simp add: set_grid_def Let_def)

text \<open>
  Claim C8. For a cloud that is not dense: a candidate whose point has a coordinate that is
  not finite is passed over by the loop body without an entry and without an error; no
  point of an output cluster has such a coordinate; and the call on the candidates without
  those that the finiteness test passes over gives the same clusters, diagnostics and
  layout, or the same error, as the call on all candidates.
\<close>

theorem invalid_points_skipped_when_not_dense:
  assumes inp: "input s = Some c" and nd: "\<not> is_dense c"
  shows "(\<forall>it p. point_at c it = Inr p \<and> invalid_point p \<longrightarrow>
            assign (grid env s) c it = Inr None) \<and>
         (\<forall>r. applyPartition env s = Inr r \<and> is_std_sort (std_sort env) \<longrightarrow>
            (\<forall>cl\<in>set (pc_vector r). \<forall>p\<in>set cl. \<not> invalid_point p)) \<and>
         applyPartition env
           (s\<lparr>indices := filter (\<lambda>it. skip_invalid c it \<noteq> Inr True) (indices s)\<rparr>) =
         map_sum id
           (\<lambda>r. r\<lparr>self := (self r)\<lparr>indices :=
              filter (\<lambda>it. skip_invalid c it \<noteq> Inr True) (indices s)\<rparr>\<rparr>)
           (applyPartition env s)"
proof -
  let ?g = "grid env s"
  have one: "assign ?g c it = Inr None" if "point_at c it = Inr p" and "invalid_point p" for it p
  proof -
    from that nd have "skip_invalid c it = Inr True" by (simp add: skip_invalid_def)
    then show ?thesis by (simp add: assign_def skipped_bodies)
  qed
  have two: "\<not> invalid_point p"
    if ret: "applyPartition env s = Inr r" and srt: "is_std_sort (std_sort env)"
      and cl: "cl \<in> set (pc_vector r)" and p: "p \<in> set cl" for r cl p
  proof (cases "proceeds env s")
    case False
    with ret inp have "pc_vector r = []"
      by (auto simp: applyPartition_def proceeds_def Let_def)
    with cl show ?thesis by simp
  next
    case True
    from applyPartition_Inr [OF ret inp True srt] obtain unsorted
      where fp: "first_pass ?g c = Inr (unsorted, diagnostics r)"
        and pc: "pc_vector r = map (map (point_of c))
          (surviving_runs (min_points_per_voxel s) (std_sort env unsorted))"
      by blast
    from cl p obtain run e
      where run: "run \<in> set (surviving_runs (min_points_per_voxel s) (std_sort env unsorted))"
        and e: "e \<in> set run" and pe: "p = point_of c e"
      by (auto simp: pc)
    note s = is_std_sortD [OF srt, of unsorted]
    from surviving_runsD(2) [OF s(1) run] e s(3) have "e \<in> set unsorted" by auto
    with fp obtain it where "assign ?g c it = Inr (Some e)"
      by (auto simp: first_pass_entry)
    from assign_SomeD(4) [OF this nd] pe show ?thesis by simp
  qed
  have three: "applyPartition env
      (s\<lparr>indices := filter (\<lambda>it. skip_invalid c it \<noteq> Inr True) (indices s)\<rparr>) =
    map_sum id
      (\<lambda>r. r\<lparr>self := (self r)\<lparr>indices :=
         filter (\<lambda>it. skip_invalid c it \<noteq> Inr True) (indices s)\<rparr>\<rparr>)
      (applyPartition env s)"
  proof (cases "leaf_size_too_small s (fst (getMinMax3D env)) (snd (getMinMax3D env))")
    case True
    with inp show ?thesis by (simp add: applyPartition_def Let_def)
  next
    case False
    have "indices (set_grid s (fst (getMinMax3D env)) (snd (getMinMax3D env))) = indices s"
      by simp
    from partition_cells_skip [where env = env and c = c
        and g = "set_grid s (fst (getMinMax3D env)) (snd (getMinMax3D env))", unfolded this]
    show ?thesis
      using inp False by (simp add: applyPartition_def Let_def set_grid_indices)
  qed
  from one two three show ?thesis by blast
qed

theorem invalid_points_skipped_when_not_dense_witness:
  "input sparse_filter = Some sparse_cloud \<and> \<not> is_dense sparse_cloud \<and>
   point_at sparse_cloud 1 = Inr nan_point \<and> invalid_point nan_point \<and>
   assign (grid origin_env sparse_filter) sparse_cloud 1 = Inr None \<and>
   (\<exists>r. applyPartition origin_env sparse_filter = Inr r \<and> pc_vector r = [[xyz 0 0 0]] \<and>
        \<not> (\<exists>cl\<in>set (pc_vector r). nan_point \<in> set cl))"
proof -
  note t = invalid_points_skipped_when_not_dense [OF sparse_fields(1) sparse_fields(3),
      where env = origin_env]
  have p: "point_at sparse_cloud 1 = Inr nan_point"
    by (simp add: point_at_def sparse_cloud_def nan_cloud_def cloud_of_def)
  have inv: "invalid_point nan_point" by (simp add: invalid_point_def nan_point_def)
  from t p inv have a: "assign (grid origin_env sparse_filter) sparse_cloud 1 = Inr None"
    by blast
  from sparse_run obtain r where r: "applyPartition origin_env sparse_filter = Inr r"
    and pv: "pc_vector r = [[xyz 0 0 0]]"
    by blast
  from t r sparse_fields(4) have "\<forall>cl\<in>set (pc_vector r). \<forall>p\<in>set cl. \<not> invalid_point p"
    by blast
  with inv have b: "\<not> (\<exists>cl\<in>set (pc_vector r). nan_point \<in> set cl)" by blast
  from sparse_fields(1,3) p inv a r pv b show ?thesis by blast
qed

lemma assign_same_point:
  assumes "point_at c it = Inr p" and "point_at c' it' = Inr p"
    and "is_dense c' = is_dense c" and "point_fields c' = point_fields c"
  shows "map_sum id (map_option idx) (assign g c' it') =
         map_sum id (map_option idx) (assign g c it)"
  using assms
  by (auto simp: assign_def filtered_body_def plain_body_def skip_invalid_def field_offset_def
      getFieldIndex_def bind_res_def split: sum.splits)

lemma entry_pair_point:
  assumes "0 \<le> it" and "nat it < length (points c)"
  shows "map_option (\<lambda>e. (idx e, point_of c e))
           (case assign g c it of Inl e \<Rightarrow> None | Inr oe \<Rightarrow> oe) =
         point_entry g c (points c ! nat it)"
proof -
  let ?p = "points c ! nat it"
  let ?c0 = "c\<lparr>points := [?p]\<rparr>"
  from assms have p: "point_at c it = Inr ?p" by (simp add: point_at_def)
  have p0: "point_at ?c0 0 = Inr ?p" by (simp add: point_at_def)
  have eq: "map_sum id (map_option idx) (assign g ?c0 0) =
      map_sum id (map_option idx) (assign g c it)"
    by (rule assign_same_point [OF p p0]) simp_all
  show ?thesis
  proof (cases "assign g c it")
    case (Inl e)
    with eq obtain e' where "assign g ?c0 0 = Inl e'" by (cases "assign g ?c0 0") auto
    with Inl show ?thesis by (simp add: point_entry_def)
  next
    case (Inr oe)
    show ?thesis
    proof (cases oe)
      case None
      with Inr eq have "assign g ?c0 0 = Inr None" by (cases "assign g ?c0 0") auto
      with Inr None show ?thesis by (simp add: point_entry_def)
    next
      case (Some e)
      with Inr eq obtain e0 where a0: "assign g ?c0 0 = Inr (Some e0)" and i: "idx e0 = idx e"
        by (cases "assign g ?c0 0") auto
      from Inr Some have "assign g c it = Inr (Some e)" by simp
      from assign_SomeD(3) [OF this] have "point_of c e = ?p" by (simp add: point_of_def)
      with Inr Some a0 i show ?thesis by (simp add: point_entry_def)
    qed
  qed
qed

lemma map_map_filter:
  "\<forall>x\<in>set xs. k (m x) = map_option f (h x) \<Longrightarrow>
   map f (List.map_filter h xs) = List.map_filter k (map m xs)"
  by (induction xs) (auto simp: map_filter_simps split: option.splits)

lemma entry_pairs:
  assumes "\<forall>it\<in>set its. 0 \<le> it \<and> nat it < length (points c)"
  shows "map (\<lambda>e. (idx e, point_of c e)) (admitted_entries (assign g c) its) =
         List.map_filter (point_entry g c) (map (\<lambda>it. points c ! nat it) its)"
  unfolding admitted_entries_def
  using assms by (intro map_map_filter) (simp add: entry_pair_point)

lemma all_points: "map (\<lambda>it. ps ! nat it) (map int [0..<length ps]) = ps"
proof -
  have "map (\<lambda>it. ps ! nat it) (map int [0..<length ps]) = map ((!) ps) [0..<length ps]"
    by (simp add: comp_def)
  then show ?thesis by (simp add: map_nth)
qed

lemma mset_map_filter_cong:
  "mset xs = mset ys \<Longrightarrow> mset (List.map_filter f xs) = mset (List.map_filter f ys)"
  by (simp add: map_filter_def)

lemma leaf_idx_input [simp]: "leaf_idx (g\<lparr>input := x\<rparr>) = leaf_idx g"
  by (rule ext) (simp add: leaf_idx_def)

lemma cut_out_input [simp]: "cut_out (g\<lparr>input := x\<rparr>) = cut_out g"
  by (rule ext) (simp add: cut_out_def)

lemma assign_input [simp]: "assign (g\<lparr>input := x\<rparr>) = assign g"
  by (rule ext, rule ext)
     (simp add: assign_def filtered_body_def plain_body_def cong: if_cong)

lemma point_entry_input:
  "point_entry (g\<lparr>input := x\<rparr>) (c\<lparr>points := ps\<rparr>) = point_entry g c"
  by (rule ext) (simp add: point_entry_def)

lemma runs_view:
  "map (\<lambda>run. (idx (hd run), mset (map (point_of c) run))) (surviving_runs mp iv) =
   map (\<lambda>v. (fst v, image_mset snd (snd v)))
     (filter (\<lambda>v. unat mp \<le> size (snd v))
       (map (\<lambda>g. (fst (hd g), mset g)) (groups fst (map (\<lambda>e. (idx e, point_of c e)) iv))))"
proof -
  have g: "groups fst (map (\<lambda>e. (idx e, point_of c e)) iv) =
      map (map (\<lambda>e. (idx e, point_of c e))) (groups idx iv)"
    using groups_map [of fst "\<lambda>e. (idx e, point_of c e)" iv] by simp
  have h: "fst (hd (map (\<lambda>e. (idx e, point_of c e)) run)) = idx (hd run)"
    if "run \<in> set (groups idx iv)" for run
    using groups_nonempty [OF that] by (simp add: hd_map)
  have "map (\<lambda>g. (fst (hd g), mset g)) (groups fst (map (\<lambda>e. (idx e, point_of c e)) iv)) =
      map (\<lambda>run. (idx (hd run), mset (map (\<lambda>e. (idx e, point_of c e)) run))) (groups idx iv)"
    unfolding g using h by (simp add: comp_def)
  then show ?thesis
    by (simp add: surviving_runs_def filter_map comp_def multiset.map_comp)
qed

lemma sorted_pairs:
  assumes fp: "first_pass g c = Inr (unsorted, d)" and srt: "is_std_sort srt"
    and all: "indices g = map int [0..<length (points c)]"
  shows "sorted (map fst (map (\<lambda>e. (idx e, point_of c e)) (srt unsorted)))"
    and "mset (map (\<lambda>e. (idx e, point_of c e)) (srt unsorted)) =
         mset (List.map_filter (point_entry g c) (points c))"
proof -
  note s = is_std_sortD [OF srt, of unsorted]
  from s(1) show "sorted (map fst (map (\<lambda>e. (idx e, point_of c e)) (srt unsorted)))"
    by (simp add: comp_def)
  from fp have u: "unsorted = admitted_entries (assign g c) (indices g)"
    by (simp add: first_pass_eq)
  have "\<forall>it\<in>set (indices g). 0 \<le> it \<and> nat it < length (points c)"
    by (auto simp: all)
  then have "map (\<lambda>e. (idx e, point_of c e)) unsorted =
      List.map_filter (point_entry g c) (map (\<lambda>it. points c ! nat it) (indices g))"
    unfolding u by (rule entry_pairs)
  moreover have "map (\<lambda>it. points c ! nat it) (indices g) = points c"
    unfolding all by (rule all_points)
  ultimately
  have "map (\<lambda>e. (idx e, point_of c e)) unsorted = List.map_filter (point_entry g c) (points c)"
    by (simp only:)
  moreover have "mset (map (\<lambda>e. (idx e, point_of c e)) (srt unsorted)) =
      mset (map (\<lambda>e. (idx e, point_of c e)) unsorted)"
    using s(2) by simp
  ultimately show "mset (map (\<lambda>e. (idx e, point_of c e)) (srt unsorted)) =
      mset (List.map_filter (point_entry g c) (points c))"
    by simp
qed

lemma proceeds_input:
  "getMinMax3D env' = getMinMax3D env \<Longrightarrow>
   proceeds env' (s\<lparr>input := Some c'\<rparr>) = (\<not> leaf_size_too_small s (fst (getMinMax3D env))
     (snd (getMinMax3D env)))"
  by (simp add: proceeds_def leaf_size_too_small_def)

lemma grid_input:
  "getMinMax3D env' = getMinMax3D env \<Longrightarrow>
   grid env' (s\<lparr>input := x\<rparr>) = (grid env s)\<lparr>input := x\<rparr>"
  by (simp add: grid_def set_grid_def Let_def)

lemma first_pass_diagnostics_reordered [simp]:
  "first_pass_diagnostics (g\<lparr>input := x\<rparr>) (c\<lparr>points := ps\<rparr>) = first_pass_diagnostics g c"
  by (simp add: first_pass_diagnostics_def getFieldIndex_def)

lemma first_pass_reordered:
  assumes fp: "first_pass g c = Inr (unsorted, d)"
    and all: "indices g = map int [0..<length (points c)]"
    and perm: "mset ps = mset (points c)"
  shows "\<exists>unsorted'. first_pass (g\<lparr>input := x\<rparr>) (c\<lparr>points := ps\<rparr>) = Inr (unsorted', d)"
proof -
  let ?c' = "c\<lparr>points := ps\<rparr>"
  from perm have len: "length ps = length (points c)" by (rule mset_eq_length)
  from perm have sets: "set ps = set (points c)" by (metis set_mset_mset)
  have ok: "\<exists>oe. assign g ?c' it = Inr oe" if "it \<in> set (indices g)" for it
  proof -
    from that obtain i where i: "i < length ps" and it: "it = int i"
      by (auto simp: all len)
    from i sets have "ps ! i \<in> set (points c)" by (metis nth_mem)
    then obtain j where j: "j < length (points c)" and pj: "points c ! j = ps ! i"
      by (auto simp: in_set_conv_nth)
    from j have "int j \<in> set (indices g)" by (simp add: all)
    with fp obtain oe where a: "assign g c (int j) = Inr oe"
      by (auto simp: first_pass_eq)
    from j pj have p1: "point_at c (int j) = Inr (ps ! i)" by (simp add: point_at_def)
    from i have p2: "point_at ?c' it = Inr (ps ! i)" by (simp add: point_at_def it)
    have "map_sum id (map_option idx) (assign g ?c' it) =
        map_sum id (map_option idx) (assign g c (int j))"
      by (rule assign_same_point [OF p1 p2]) simp_all
    with a show ?thesis by (cases "assign g ?c' it") auto
  qed
  from fp have "d = first_pass_diagnostics g c" by (simp add: first_pass_eq)
  with ok show ?thesis by (simp add: first_pass_eq)
qed

lemma reinit_layout_reordered:
  "max_layout_size env' = max_layout_size env \<Longrightarrow>
   reinit_layout env' (g\<lparr>input := x\<rparr>) = reinit_layout env g"
  by (simp add: reinit_layout_def Let_def cong: if_cong)


text \<open>
  Claim C9. A call that returns, on all the points of a cloud, and a call with the same
  configuration on a cloud that holds the same points in another order, with the same corners
  from \<^verbatim>\<open>getMinMax3D\<close> and the same allocation limit (whatever permutation each
  sort performs among the entries of one cell): the second call returns too, with the same
  diagnostics and the same leaf layout, and the two cluster lists have the same length and,
  position by position, the same points with the same multiplicities; only the order inside
  a cluster may differ.
\<close>

theorem clusters_invariant_under_reordering:
  assumes ret: "applyPartition env s = Inr r"
    and inp: "input s = Some c" and all: "indices s = map int [0..<length (points c)]"
    and perm: "mset ps = mset (points c)" and bb: "getMinMax3D env' = getMinMax3D env"
    and ml: "max_layout_size env' = max_layout_size env"
    and srt: "is_std_sort (std_sort env)" and srt': "is_std_sort (std_sort env')"
  shows "\<exists>r'. applyPartition env' (s\<lparr>input := Some (c\<lparr>points := ps\<rparr>)\<rparr>) = Inr r' \<and>
      map mset (pc_vector r') = map mset (pc_vector r) \<and>
      diagnostics r' = diagnostics r \<and>
      leaf_layout (self r') = leaf_layout (self r)"
proof (cases "proceeds env s")
  case False
  with inp have small: "leaf_size_too_small s (fst (getMinMax3D env)) (snd (getMinMax3D env))"
    by (simp add: proceeds_def)
  with ret inp have r: "r = \<lparr>self = s, pc_vector = [], diagnostics = [LeafSizeTooSmall]\<rparr>"
    by (auto simp: applyPartition_def Let_def)
  from small bb have
    "leaf_size_too_small (s\<lparr>input := Some (c\<lparr>points := ps\<rparr>)\<rparr>) (fst (getMinMax3D env'))
       (snd (getMinMax3D env'))"
    by (simp add: leaf_size_too_small_def)
  then have "applyPartition env' (s\<lparr>input := Some (c\<lparr>points := ps\<rparr>)\<rparr>) =
      Inr \<lparr>self = s\<lparr>input := Some (c\<lparr>points := ps\<rparr>)\<rparr>, pc_vector = [],
        diagnostics = [LeafSizeTooSmall]\<rparr>"
    by (simp add: applyPartition_def Let_def)
  with r show ?thesis by simp
next
  case True
  let ?c' = "c\<lparr>points := ps\<rparr>"
  let ?s' = "s\<lparr>input := Some ?c'\<rparr>"
  let ?g = "grid env s"
  let ?g' = "?g\<lparr>input := Some ?c'\<rparr>"
  let ?mp = "min_points_per_voxel s"
  have pr': "proceeds env' ?s'"
    using True unfolding proceeds_input [OF bb] by (simp add: proceeds_def)
  have g': "grid env' ?s' = ?g'" by (rule grid_input [OF bb])
  have inp': "input ?s' = Some ?c'" by simp
  from applyPartition_Inr [OF ret inp True srt] obtain unsorted
    where fp: "first_pass ?g c = Inr (unsorted, diagnostics r)"
      and pc: "pc_vector r = map (map (point_of c)) (surviving_runs ?mp (std_sort env unsorted))"
      and lay: "if save_leaf_layout s
       then \<exists>layout. reinit_layout env ?g = Inr layout \<and>
              (\<forall>k\<in>set (map (\<lambda>run. idx (hd run)) (surviving_runs ?mp (std_sort env unsorted))).
                unat k < length layout) \<and>
              self r = ?g\<lparr>leaf_layout :=
                record_cells (map (\<lambda>run. idx (hd run))
                  (surviving_runs ?mp (std_sort env unsorted))) 0 layout\<rparr>
       else self r = ?g\<lparr>leaf_layout := leaf_layout s\<rparr>"
    by blast
  from perm have len: "length ps = length (points c)" by (rule mset_eq_length)
  have all1: "indices ?g = map int [0..<length (points c)]" by (simp add: all)
  have all2: "indices ?g' = map int [0..<length (points ?c')]" by (simp add: all len)
  from first_pass_reordered [OF fp all1 perm] obtain unsorted'
    where fp': "first_pass ?g' ?c' = Inr (unsorted', diagnostics r)"
    by blast
  let ?G = "surviving_runs ?mp (std_sort env unsorted)"
  let ?G' = "surviving_runs ?mp (std_sort env' unsorted')"
  let ?ys = "map (\<lambda>e. (idx e, point_of c e)) (std_sort env unsorted)"
  let ?ys' = "map (\<lambda>e. (idx e, point_of ?c' e)) (std_sort env' unsorted')"
  note a = sorted_pairs [OF fp srt all1]
  note b = sorted_pairs [OF fp' srt' all2]
  have "mset ?ys' = mset (List.map_filter (point_entry ?g c) ps)"
    using b(2) by (simp add: point_entry_input)
  also have "\<dots> = mset (List.map_filter (point_entry ?g c) (points c))"
    using perm by (rule mset_map_filter_cong)
  also have "\<dots> = mset ?ys" using a(2) by simp
  finally have m: "mset ?ys' = mset ?ys" .
  from groups_view_cong [OF b(1) a(1) m]
  have V: "map (\<lambda>g. (fst (hd g), mset g)) (groups fst ?ys') =
      map (\<lambda>g. (fst (hd g), mset g)) (groups fst ?ys)" .
  have view: "map (\<lambda>run. (idx (hd run), mset (map (point_of ?c') run))) ?G' =
      map (\<lambda>run. (idx (hd run), mset (map (point_of c) run))) ?G"
    unfolding runs_view V by (rule refl)
  have "map fst (map (\<lambda>run. (idx (hd run), mset (map (point_of ?c') run))) ?G') =
      map fst (map (\<lambda>run. (idx (hd run), mset (map (point_of c) run))) ?G)"
    by (simp only: view)
  then have keys: "map (\<lambda>run. idx (hd run)) ?G' = map (\<lambda>run. idx (hd run)) ?G"
    by (simp add: comp_def)
  have "map snd (map (\<lambda>run. (idx (hd run), mset (map (point_of ?c') run))) ?G') =
      map snd (map (\<lambda>run. (idx (hd run), mset (map (point_of c) run))) ?G)"
    by (simp only: view)
  then have msets: "map mset (map (map (point_of ?c')) ?G') = map mset (pc_vector r)"
    unfolding pc by (simp add: comp_def)
  have ap: "applyPartition env' ?s' = partition_cells env' ?g' ?c'"
    using applyPartition_proceeds [OF inp' pr'] g' by simp
  note eq = partition_cells_eq [OF srt' fp']
  show ?thesis
  proof (cases "save_leaf_layout s")
    case False
    with eq have "partition_cells env' ?g' ?c' =
        Inr \<lparr>self = ?g'\<lparr>leaf_layout := leaf_layout s\<rparr>,
          pc_vector = map (map (point_of ?c')) ?G', diagnostics = diagnostics r\<rparr>"
      by (simp add: grid_fields)
    moreover from lay False have "leaf_layout (self r) = leaf_layout s" by simp
    ultimately show ?thesis using msets by (simp add: ap)
  next
    case save: True
    with lay obtain layout where rl: "reinit_layout env ?g = Inr layout"
      and rng: "\<forall>k\<in>set (map (\<lambda>run. idx (hd run)) ?G). unat k < length layout"
      and sr: "self r = ?g\<lparr>leaf_layout := record_cells (map (\<lambda>run. idx (hd run)) ?G) 0 layout\<rparr>"
      by auto
    have rl': "reinit_layout env' ?g' = Inr layout"
      using rl by (simp add: reinit_layout_reordered [OF ml])
    from eq save have "partition_cells env' ?g' ?c' =
        bind_res (reinit_layout env' ?g') (\<lambda>layout.
          if \<forall>k\<in>set (map (\<lambda>run. idx (hd run)) ?G'). unat k < length layout
          then Inr \<lparr>self = ?g'\<lparr>leaf_layout :=
                   record_cells (map (\<lambda>run. idx (hd run)) ?G') 0 layout\<rparr>,
                 pc_vector = map (map (point_of ?c')) ?G', diagnostics = diagnostics r\<rparr>
          else Inl LeafLayoutOutOfRange)"
      by (simp add: grid_fields cong: if_cong)
    then have "partition_cells env' ?g' ?c' =
        Inr \<lparr>self = ?g'\<lparr>leaf_layout := record_cells (map (\<lambda>run. idx (hd run)) ?G) 0 layout\<rparr>,
          pc_vector = map (map (point_of ?c')) ?G', diagnostics = diagnostics r\<rparr>"
      unfolding keys rl' using rng by (simp add: bind_res_def)
    with sr msets show ?thesis by (simp add: ap)
  qed
qed

lemma permuted_fields:
  "input permuted_filter = Some (three_point_cloud\<lparr>points :=
       [xyz (11/2) (11/2) (11/2), xyz (21/4) (21/4) (21/4), xyz (1/4) (1/4) (1/4)]\<rparr>)"
  "\<not> save_leaf_layout permuted_filter"
  by (simp_all add: permuted_filter_def pair_filter_def filter_for_def)

lemma permuted_proceeds: "proceeds three_point_env permuted_filter"
  by (simp add: three_point_env_def permuted_filter_def pair_filter_def check_eval)

lemma permuted_first_pass:
  "first_pass (grid three_point_env permuted_filter) (three_point_cloud\<lparr>points :=
       [xyz (11/2) (11/2) (11/2), xyz (21/4) (21/4) (21/4), xyz (1/4) (1/4) (1/4)]\<rparr>) =
   Inr ([\<lparr>idx = 215, cloud_point_index = 0\<rparr>, \<lparr>idx = 215, cloud_point_index = 1\<rparr>,
         \<lparr>idx = 0, cloud_point_index = 2\<rparr>], [])"
  by (simp add: three_point_env_def permuted_filter_def pair_filter_def three_point_cloud_def
      grid_eval first_pass_eval)

lemma permuted_run:
  "\<exists>r. applyPartition three_point_env permuted_filter = Inr r \<and>
       pc_vector r = [[xyz (11/2) (11/2) (11/2), xyz (21/4) (21/4) (21/4)]]"
proof -
  have pv: "map (map (point_of (three_point_cloud\<lparr>points :=
       [xyz (11/2) (11/2) (11/2), xyz (21/4) (21/4) (21/4), xyz (1/4) (1/4) (1/4)]\<rparr>)))
      (surviving_runs (min_points_per_voxel permuted_filter) (std_sort three_point_env
        [\<lparr>idx = 215, cloud_point_index = 0\<rparr>, \<lparr>idx = 215, cloud_point_index = 1\<rparr>,
         \<lparr>idx = 0, cloud_point_index = 2\<rparr>])) =
      [[xyz (11/2) (11/2) (11/2), xyz (21/4) (21/4) (21/4)]]"
    by (simp add: permuted_filter_def pair_filter_def filter_for_def three_point_env_def
        surviving_runs_def point_of_def three_point_cloud_def cloud_of_def)
  show ?thesis
    unfolding applyPartition_run [OF pair_filter_fields(5) permuted_fields(1) permuted_proceeds
        permuted_first_pass permuted_fields(2)]
    by (simp add: pv)
qed

theorem clusters_invariant_under_reordering_witness:
  "\<exists>r r'. applyPartition three_point_env pair_filter = Inr r \<and>
       applyPartition three_point_env permuted_filter = Inr r' \<and>
       input pair_filter = Some three_point_cloud \<and>
       indices pair_filter = map int [0..<length (points three_point_cloud)] \<and>
       mset [xyz (11/2) (11/2) (11/2), xyz (21/4) (21/4) (21/4), xyz (1/4) (1/4) (1/4)] =
         mset (points three_point_cloud) \<and>
       is_std_sort (std_sort three_point_env) \<and>
       pc_vector r = [[xyz (21/4) (21/4) (21/4), xyz (11/2) (11/2) (11/2)]] \<and>
       pc_vector r' = [[xyz (11/2) (11/2) (11/2), xyz (21/4) (21/4) (21/4)]] \<and>
       map mset (pc_vector r') = map mset (pc_vector r) \<and>
       diagnostics r' = diagnostics r"
proof -
  from pair_run obtain r where r: "applyPartition three_point_env pair_filter = Inr r"
    and pv: "pc_vector r = [[xyz (21/4) (21/4) (21/4), xyz (11/2) (11/2) (11/2)]]"
    by blast
  from permuted_run obtain r' where r': "applyPartition three_point_env permuted_filter = Inr r'"
    and pv': "pc_vector r' = [[xyz (11/2) (11/2) (11/2), xyz (21/4) (21/4) (21/4)]]"
    by blast
  have all: "indices pair_filter = map int [0..<length (points three_point_cloud)]"
    by (simp add: pair_filter_fields three_point_cloud_def cloud_of_def upt_rec)
  have perm: "mset [xyz (11/2) (11/2) (11/2), xyz (21/4) (21/4) (21/4), xyz (1/4) (1/4) (1/4)] =
         mset (points three_point_cloud)"
    by (simp add: three_point_cloud_def cloud_of_def add_mset_commute)
  from clusters_invariant_under_reordering [OF r pair_filter_fields(1) all perm refl refl
      pair_filter_fields(5) pair_filter_fields(5)]
  obtain r'' where r'': "applyPartition three_point_env (pair_filter\<lparr>input :=
        Some (three_point_cloud\<lparr>points :=
          [xyz (11/2) (11/2) (11/2), xyz (21/4) (21/4) (21/4), xyz (1/4) (1/4) (1/4)]\<rparr>)\<rparr>) =
        Inr r''"
    and eq: "map mset (pc_vector r'') = map mset (pc_vector r)"
    and dg: "diagnostics r'' = diagnostics r"
    by blast
  from r'' r' have "r'' = r'" by (simp add: permuted_filter_def)
  with eq dg have "map mset (pc_vector r') = map mset (pc_vector r)"
    and "diagnostics r' = diagnostics r"
    by simp_all
  with r r' pv pv' all perm pair_filter_fields(1,5) show ?thesis by blast
qed

end
